theory Spec2Isabelle
  imports Main "HOL-Library.AList" "HOL-Library.Word"
begin

section \<open>JavaScript values and strings\<close>

text \<open>
  A JavaScript string is a sequence of 16-bit code units. \<open>str\<close> gives the string of
  an ASCII literal.
\<close>

type_synonym jsString = "16 word list"

definition str :: "string \<Rightarrow> jsString" where
  "str s = map (\<lambda>c. of_nat (of_char c)) s"

text \<open>
  The values that reach the store and the message handlers are the results of
  \<^verbatim>\<open>JSON.parse\<close> and of property reads on them. \<open>JUndefined\<close> is what a read of an
  absent property gives. A number is only ever tested for its type and its truthiness
  and forwarded unchanged, so it is kept as an integer. The keys of a parsed object are
  distinct.
\<close>

datatype json =
    JUndefined
  | JNull
  | JBool bool
  | JNum int
  | JStr jsString
  | JArr "json list"
  | JObj "(jsString \<times> json) list"

text \<open>\<^verbatim>\<open>!!v\<close>: the falsy values are undefined, null, false, 0 and the empty string.\<close>

fun truthy :: "json \<Rightarrow> bool" where
  "truthy JUndefined = False"
| "truthy JNull = False"
| "truthy (JBool b) = b"
| "truthy (JNum n) = (n \<noteq> 0)"
| "truthy (JStr s) = (s \<noteq> [])"
| "truthy (JArr xs) = True"
| "truthy (JObj fs) = True"

text \<open>\<^verbatim>\<open>typeof v === "string"\<close> and \<^verbatim>\<open>typeof v === "object"\<close> (null is an object too).\<close>

fun isString :: "json \<Rightarrow> bool" where
  "isString (JStr s) = True"
| "isString v = False"

fun isObject :: "json \<Rightarrow> bool" where
  "isObject JNull = True"
| "isObject (JArr xs) = True"
| "isObject (JObj fs) = True"
| "isObject v = False"

text \<open>\<^verbatim>\<open>v.k\<close> on a parsed object; an array or an object without the key gives undefined.\<close>

fun field :: "json \<Rightarrow> jsString \<Rightarrow> json" where
  "field (JObj fs) k = (case map_of fs k of Some v \<Rightarrow> v | None \<Rightarrow> JUndefined)"
| "field v k = JUndefined"

text \<open>
  \<^verbatim>\<open>String.prototype.trim\<close> removes the leading and trailing code units that are
  WhiteSpace or LineTerminator in ECMAScript: TAB, LF, VT, FF, CR, SP, NBSP, the
  Unicode space separators (U+1680, U+2000 to U+200A, U+202F, U+205F, U+3000), LS, PS
  and U+FEFF.
\<close>

definition whiteSpace :: "16 word list" where
  "whiteSpace =
     [0x0009, 0x000A, 0x000B, 0x000C, 0x000D, 0x0020, 0x00A0, 0x1680,
      0x2000, 0x2001, 0x2002, 0x2003, 0x2004, 0x2005, 0x2006, 0x2007, 0x2008, 0x2009, 0x200A,
      0x2028, 0x2029, 0x202F, 0x205F, 0x3000, 0xFEFF]"

definition isWhiteSpace :: "16 word \<Rightarrow> bool" where
  "isWhiteSpace c = (c \<in> set whiteSpace)"

definition trim :: "jsString \<Rightarrow> jsString" where
  "trim s = rev (dropWhile isWhiteSpace (rev (dropWhile isWhiteSpace s)))"

text \<open>
  \<^verbatim>\<open>String.prototype.toUpperCase\<close> maps the code points of the string by the Unicode
  case table of the runtime, which is not part of the repository. On a string of ASCII
  code units it turns \<^verbatim>\<open>a\<close> to \<^verbatim>\<open>z\<close> into \<^verbatim>\<open>A\<close> to \<^verbatim>\<open>Z\<close> and keeps the rest; what it does to
  a string with a code unit beyond ASCII is the parameter \<open>uc\<close> of the model, and every
  theorem below holds whatever that function is.
\<close>

type_synonym unicodeCase = "jsString \<Rightarrow> jsString"

definition isAscii :: "16 word \<Rightarrow> bool" where
  "isAscii c = (c < 0x80)"

definition toUpperCaseAscii :: "16 word \<Rightarrow> 16 word" where
  "toUpperCaseAscii c = (if 0x61 \<le> c \<and> c \<le> 0x7A then c - 0x20 else c)"

definition toUpperCase :: "unicodeCase \<Rightarrow> jsString \<Rightarrow> jsString" where
  "toUpperCase uc s = (if list_all isAscii s then map toUpperCaseAscii s else uc s)"

text \<open>
  The case function used where an example needs one: the strings of the examples
  are ASCII after trimming, so it is never applied.
\<close>

definition identityCase :: unicodeCase where
  "identityCase s = s"

section \<open>The room ledger (rooms/memoryStore.ts)\<close>

datatype ParticipantRole = Host | Guest

record RoomParticipant =
  p_participantId :: jsString
  p_displayName :: "jsString option"
  p_role :: ParticipantRole
  p_joinedAt :: int

record CreateRoomResult =
  cr_roomId :: jsString
  cr_hostToken :: jsString
  cr_createdAt :: int

text \<open>The options object of \<^verbatim>\<open>joinRoom\<close>; an absent field is \<open>JUndefined\<close>.\<close>

record JoinRoomOptions =
  o_displayName :: json
  o_role :: json
  o_hostToken :: json

record JoinRoomResult =
  jr_roomId :: jsString
  jr_participantId :: jsString
  jr_role :: ParticipantRole
  jr_displayName :: "jsString option"
  jr_joinedAt :: int

text \<open>
  The exceptions of the store: the two \<^verbatim>\<open>RoomStoreError\<close> subclasses, and the plain
  \<^verbatim>\<open>Error("Failed to allocate a unique room id")\<close> of the generator.
\<close>

datatype error =
    RoomNotFoundError json
  | InvalidHostTokenError
  | AllocationError


definition ROOM_ID_ALPHABET :: jsString where
  "ROOM_ID_ALPHABET = str ''ABCDEFGHJKMNPQRSTUVWXYZ23456789''"

definition ROOM_ID_LENGTH :: nat where
  "ROOM_ID_LENGTH = 6"

definition normalizeRoomId :: "unicodeCase \<Rightarrow> jsString \<Rightarrow> jsString" where
  "normalizeRoomId uc v = toUpperCase uc (trim v)"

text \<open>
  One pass of the sampling loop: \<open>randomBytes\<close> is the \<^verbatim>\<open>Uint32Array\<close> after it has been
  filled (by \<^verbatim>\<open>crypto.getRandomValues\<close> or by the \<^verbatim>\<open>Math.random\<close> fallback), read at the
  indices below \<open>ROOM_ID_LENGTH\<close>.
\<close>

definition sampleCode :: "(nat \<Rightarrow> 32 word) \<Rightarrow> jsString" where
  "sampleCode randomBytes =
     map (\<lambda>index. ROOM_ID_ALPHABET ! (unat (randomBytes index) mod length ROOM_ID_ALPHABET))
       [0..<ROOM_ID_LENGTH]"

text \<open>
  \<^verbatim>\<open>generateRoomId\<close>: the loop over \<open>attempts\<close>, started at 0. The random source gives
  the array of each attempt.
\<close>

function generateRoomIdFrom :: "unicodeCase \<Rightarrow> nat \<Rightarrow> jsString set \<Rightarrow> (nat \<Rightarrow> nat \<Rightarrow> 32 word) \<Rightarrow> error + jsString" where
  "generateRoomIdFrom uc attempts existingIds rnd =
     (if attempts < 20 then
        (let normalized = normalizeRoomId uc (sampleCode (rnd attempts)) in
         if normalized \<notin> existingIds then Inr normalized
         else generateRoomIdFrom uc (attempts + 1) existingIds rnd)
      else Inl AllocationError)"
  by pat_completeness auto
termination
  by (relation "measure (\<lambda>(uc, attempts, existingIds, rnd). 20 - attempts)") auto

declare generateRoomIdFrom.simps [simp del]

definition generateRoomId :: "unicodeCase \<Rightarrow> jsString set \<Rightarrow> (nat \<Rightarrow> nat \<Rightarrow> 32 word) \<Rightarrow> error + jsString" where
  "generateRoomId uc existingIds rnd = generateRoomIdFrom uc 0 existingIds rnd"

record RoomRecord =
  r_id :: jsString
  r_createdAt :: int
  r_hostToken :: jsString
  r_participants :: "(jsString \<times> RoomParticipant) list"

text \<open>
  The private \<^verbatim>\<open>#rooms\<close> map. A JavaScript \<^verbatim>\<open>Map\<close> is an association list in insertion
  order: \<open>map_of\<close> is \<^verbatim>\<open>get\<close>, \<open>AList.update\<close> is \<^verbatim>\<open>set\<close> (a new key goes last, an old
  one keeps its place) and \<open>AList.delete\<close> is \<^verbatim>\<open>delete\<close>.
\<close>

type_synonym roomStore = "(jsString \<times> RoomRecord) list"

text \<open>
  \<^verbatim>\<open>createRoom\<close>. The results of \<^verbatim>\<open>makeId()\<close> and \<^verbatim>\<open>Date.now()\<close> are arguments. An
  exception leaves the store as it was.
\<close>

definition createRoom ::
  "unicodeCase \<Rightarrow> roomStore \<Rightarrow> (nat \<Rightarrow> nat \<Rightarrow> 32 word) \<Rightarrow> jsString \<Rightarrow> int \<Rightarrow> (error + CreateRoomResult) \<times> roomStore" where
  "createRoom uc rooms rnd hostToken createdAt =
     (case generateRoomId uc (set (map fst rooms)) rnd of
        Inl e \<Rightarrow> (Inl e, rooms)
      | Inr roomId \<Rightarrow>
          (Inr \<lparr>cr_roomId = roomId, cr_hostToken = hostToken, cr_createdAt = createdAt\<rparr>,
           AList.update roomId
             \<lparr>r_id = roomId, r_createdAt = createdAt, r_hostToken = hostToken, r_participants = []\<rparr>
             rooms))"

text \<open>The display name of a join: a string that is not blank, trimmed; otherwise null.\<close>

definition cleanDisplayName :: "json \<Rightarrow> jsString option" where
  "cleanDisplayName v =
     (case v of
        JStr s \<Rightarrow> (if length (trim s) > 0 then Some (trim s) else None)
      | _ \<Rightarrow> None)"

definition requestedRole :: "json \<Rightarrow> ParticipantRole" where
  "requestedRole v = (if v = JStr (str ''host'') then Host else Guest)"

text \<open>
  The end of \<^verbatim>\<open>joinRoom\<close>, after its checks: the participant is built from the results
  of \<^verbatim>\<open>makeId()\<close> and \<^verbatim>\<open>Date.now()\<close>, stored in the room's map and returned.
\<close>

definition addParticipant ::
  "roomStore \<Rightarrow> jsString \<Rightarrow> RoomRecord \<Rightarrow> ParticipantRole \<Rightarrow> jsString option \<Rightarrow> jsString \<Rightarrow> int
     \<Rightarrow> (error + JoinRoomResult) \<times> roomStore" where
  "addParticipant rooms roomId room role displayName participantId joinedAt =
     (let participant =
            \<lparr>p_participantId = participantId, p_displayName = displayName,
             p_role = role, p_joinedAt = joinedAt\<rparr>
      in
      (Inr \<lparr>jr_roomId = roomId, jr_participantId = participantId, jr_role = role,
           jr_displayName = displayName, jr_joinedAt = joinedAt\<rparr>,
       AList.update roomId
         (room\<lparr>r_participants :=
            AList.update participantId participant (r_participants room)\<rparr>)
         rooms))"

text \<open>
  \<^verbatim>\<open>joinRoom\<close>. The first argument of the code need not be a string at run time. An
  exception leaves the store as it was.
\<close>

definition joinRoom ::
  "unicodeCase \<Rightarrow> roomStore \<Rightarrow> json \<Rightarrow> JoinRoomOptions \<Rightarrow> jsString \<Rightarrow> int \<Rightarrow> (error + JoinRoomResult) \<times> roomStore" where
  "joinRoom uc rooms roomIdRaw options participantId joinedAt =
     (case roomIdRaw of
        JStr raw \<Rightarrow>
          if length (trim raw) = 0 then (Inl (RoomNotFoundError roomIdRaw), rooms)
          else
            let roomId = normalizeRoomId uc raw in
            (case map_of rooms roomId of
               None \<Rightarrow> (Inl (RoomNotFoundError (JStr roomId)), rooms)
             | Some room \<Rightarrow>
                 let role = requestedRole (o_role options);
                     displayName = cleanDisplayName (o_displayName options)
                 in
                 if role = Host \<and>
                    (\<not> truthy (o_hostToken options) \<or> o_hostToken options \<noteq> JStr (r_hostToken room))
                 then (Inl InvalidHostTokenError, rooms)
                 else addParticipant rooms roomId room role displayName participantId joinedAt)
      | _ \<Rightarrow> (Inl (RoomNotFoundError roomIdRaw), rooms))"

text \<open>A run of \<^verbatim>\<open>createRoom\<close> calls on one store, each with its own random source.\<close>

fun createRooms ::
  "unicodeCase \<Rightarrow> roomStore \<Rightarrow> ((nat \<Rightarrow> nat \<Rightarrow> 32 word) \<times> jsString \<times> int) list
     \<Rightarrow> (error + CreateRoomResult) list \<times> roomStore" where
  "createRooms uc rooms [] = ([], rooms)"
| "createRooms uc rooms ((rnd, hostToken, createdAt) # calls) =
     (case createRoom uc rooms rnd hostToken createdAt of
        (res, rooms') \<Rightarrow>
          (case createRooms uc rooms' calls of (ress, rooms'') \<Rightarrow> (res # ress, rooms'')))"

text \<open>The room codes that a run of calls returned, in order.\<close>

fun returnedRoomIds :: "(error + CreateRoomResult) list \<Rightarrow> jsString list" where
  "returnedRoomIds [] = []"
| "returnedRoomIds (Inr r # rs) = cr_roomId r # returnedRoomIds rs"
| "returnedRoomIds (Inl e # rs) = returnedRoomIds rs"

text \<open>
  Three calls on an empty store: the second samples the first call's code once and
  retries, the third samples it at every attempt.
\<close>

definition demoCalls :: "((nat \<Rightarrow> nat \<Rightarrow> 32 word) \<times> jsString \<times> int) list" where
  "demoCalls = [(\<lambda>a i. 0, (str ''t1''), 1), (\<lambda>a i. of_nat a, (str ''t2''), 2), (\<lambda>a i. 0, (str ''t3''), 3)]"

text \<open>A store with one room, and some option objects, for the examples.\<close>

definition demoRoom :: RoomRecord where
  "demoRoom = \<lparr>r_id = str ''AB23CD'', r_createdAt = 5, r_hostToken = str ''t1'', r_participants = []\<rparr>"

definition demoStore :: roomStore where
  "demoStore = [(str ''AB23CD'', demoRoom)]"

definition noOptions :: JoinRoomOptions where
  "noOptions = \<lparr>o_displayName = JUndefined, o_role = JUndefined, o_hostToken = JUndefined\<rparr>"

definition hostOptions :: "json \<Rightarrow> JoinRoomOptions" where
  "hostOptions token = \<lparr>o_displayName = JStr (str '' Alex ''), o_role = JStr (str ''host''), o_hostToken = token\<rparr>"

definition adminOptions :: JoinRoomOptions where
  "adminOptions = \<lparr>o_displayName = JNull, o_role = JStr (str ''admin''), o_hostToken = JStr (str ''wrong'')\<rparr>"


definition emptyTokenStore :: roomStore where
  "emptyTokenStore = snd (createRoom identityCase [] (\<lambda>attempt index. 0) [] 5)"

section \<open>The real-time layer (the WebSocket server)\<close>

text \<open>
  The server keeps two global maps, \<^verbatim>\<open>sessions\<close> and \<^verbatim>\<open>activeRooms\<close>. Both hold
  references to the same mutable \<^verbatim>\<open>ClientSession\<close> objects, so the objects live in an
  explicit store: \<open>heap\<close> maps an address to the object, \<open>nextRef\<close> is the next free
  address. A socket is named by a number, and \<open>readyStateOf\<close> gives its
  \<^verbatim>\<open>readyState\<close>, which the transport changes on its own.
\<close>

datatype readyState = CONNECTING | OPEN | CLOSING | CLOSED

record ParticipantSummary =
  ps_clientId :: jsString
  ps_displayName :: "jsString option"
  ps_role :: ParticipantRole

text \<open>
  The outgoing events: \<^verbatim>\<open>welcome{clientId}\<close>, \<^verbatim>\<open>room-state{participants}\<close>,
  \<^verbatim>\<open>user-joined{participant}\<close>, \<^verbatim>\<open>user-left{clientId}\<close>, \<^verbatim>\<open>signal{from, payload}\<close> and
  \<^verbatim>\<open>chat{clientId, text, messageId, timestamp}\<close>.
\<close>

datatype OutgoingServerMessage =
    WelcomeEvent jsString
  | RoomStateEvent "ParticipantSummary list"
  | UserJoinedEvent ParticipantSummary
  | UserLeftEvent jsString
  | SignalRelayEvent jsString json
  | ChatEvent jsString jsString jsString int

record ClientSession =
  s_id :: jsString
  s_socket :: nat
  s_roomId :: "jsString option"
  s_displayName :: "jsString option"
  s_role :: ParticipantRole

record server =
  heap :: "nat \<Rightarrow> ClientSession"
  nextRef :: nat
  sessions :: "(jsString \<times> nat) list"
  activeRooms :: "(jsString \<times> (jsString \<times> nat) list) list"
  readyStateOf :: "nat \<Rightarrow> readyState"

text \<open>What a handler hands to \<^verbatim>\<open>socket.send\<close>: the socket and the event, in order.\<close>

type_synonym sent = "(nat \<times> OutgoingServerMessage) list"

text \<open>
  \<^verbatim>\<open>sendJson\<close>: nothing is sent on a socket that is not open. An exception of
  \<^verbatim>\<open>socket.send\<close> is caught and logged there, so the call is recorded either way.
\<close>

definition sendJson :: "server \<Rightarrow> nat \<Rightarrow> OutgoingServerMessage \<Rightarrow> sent" where
  "sendJson st socket payload =
     (if readyStateOf st socket \<noteq> OPEN then [] else [(socket, payload)])"

text \<open>The truthiness of a \<^verbatim>\<open>string | null\<close> or of an optional string argument.\<close>

fun truthyString :: "jsString option \<Rightarrow> bool" where
  "truthyString None = False"
| "truthyString (Some s) = (s \<noteq> [])"

definition broadcastToRoom ::
  "server \<Rightarrow> jsString \<Rightarrow> OutgoingServerMessage \<Rightarrow> jsString option \<Rightarrow> sent" where
  "broadcastToRoom st roomId payload exclude =
     (case map_of (activeRooms st) roomId of
        None \<Rightarrow> []
      | Some room \<Rightarrow>
          concat (map (\<lambda>(clientId, session).
                    if truthyString exclude \<and> Some clientId = exclude then []
                    else sendJson st (s_socket (heap st session)) payload)
                  room))"

text \<open>\<open>session\<close> is the address of the session object in all the handlers below.\<close>

definition detachFromRoom :: "server \<Rightarrow> nat \<Rightarrow> server \<times> sent" where
  "detachFromRoom st session =
     (case s_roomId (heap st session) of
        None \<Rightarrow> (st, [])
      | Some roomId \<Rightarrow>
          if roomId = [] then (st, [])
          else
            (case map_of (activeRooms st) roomId of
               None \<Rightarrow>
                 (st\<lparr>heap := (heap st)(session := (heap st session)\<lparr>s_roomId := None\<rparr>)\<rparr>, [])
             | Some room \<Rightarrow>
                 let room' = AList.delete (s_id (heap st session)) room;
                     st1 = st\<lparr>activeRooms :=
                             (if length room' = 0 then AList.delete roomId (activeRooms st)
                              else AList.update roomId room' (activeRooms st))\<rparr>;
                     out = broadcastToRoom st1 roomId (UserLeftEvent (s_id (heap st session)))
                             (Some (s_id (heap st session)))
                 in
                 (st1\<lparr>heap := (heap st1)(session := (heap st1 session)\<lparr>s_roomId := None\<rparr>)\<rparr>,
                  out)))"

definition attachToRoom :: "unicodeCase \<Rightarrow> server \<Rightarrow> nat \<Rightarrow> jsString \<Rightarrow> server" where
  "attachToRoom uc st session roomId =
     (let normalizedId = toUpperCase uc (trim roomId);
          room = (case map_of (activeRooms st) normalizedId of None \<Rightarrow> [] | Some r \<Rightarrow> r);
          room' = AList.update (s_id (heap st session)) session room
      in
      st\<lparr>activeRooms := AList.update normalizedId room' (activeRooms st),
         heap := (heap st)(session := (heap st session)\<lparr>s_roomId := Some normalizedId\<rparr>)\<rparr>)"

definition summaryOf :: "ClientSession \<Rightarrow> ParticipantSummary" where
  "summaryOf member =
     \<lparr>ps_clientId = s_id member, ps_displayName = s_displayName member, ps_role = s_role member\<rparr>"

definition handleJoinMessage :: "unicodeCase \<Rightarrow> server \<Rightarrow> nat \<Rightarrow> json \<Rightarrow> server \<times> sent" where
  "handleJoinMessage uc st session message =
     (case field message (str ''roomId'') of
        JStr roomId \<Rightarrow>
          if roomId = [] then (st, [])
          else
            let role = requestedRole (field message (str ''role''));
                displayName = cleanDisplayName (field message (str ''displayName''));
                wasInRoom = s_roomId (heap st session);
                (st1, left) = (if truthyString wasInRoom then detachFromRoom st session else (st, []));
                st2 = st1\<lparr>heap := (heap st1)(session :=
                        (heap st1 session)\<lparr>s_displayName := displayName, s_role := role\<rparr>)\<rparr>;
                st3 = attachToRoom uc st2 session roomId;
                me = heap st3 session;
                otherParticipants =
                  (case s_roomId me of
                     None \<Rightarrow> []
                   | Some code \<Rightarrow>
                       (case map_of (activeRooms st3) code of
                          None \<Rightarrow> []
                        | Some room \<Rightarrow>
                            map (\<lambda>(clientId, member). summaryOf (heap st3 member))
                              (filter (\<lambda>(clientId, member). clientId \<noteq> s_id me) room)))
            in
            (st3,
             left @
             sendJson st3 (s_socket me) (RoomStateEvent otherParticipants) @
             (case s_roomId me of
                None \<Rightarrow> []
              | Some code \<Rightarrow> broadcastToRoom st3 code (UserJoinedEvent (summaryOf me)) (Some (s_id me))))
      | _ \<Rightarrow> (st, []))"

definition handleSignalMessage :: "server \<Rightarrow> nat \<Rightarrow> json \<Rightarrow> server \<times> sent" where
  "handleSignalMessage st session message =
     (case s_roomId (heap st session) of
        None \<Rightarrow> (st, [])
      | Some roomId \<Rightarrow>
          if roomId = [] \<or> \<not> truthy (field message (str ''targetClientId'')) then (st, [])
          else
            (case map_of (activeRooms st) roomId of
               None \<Rightarrow> (st, [])
             | Some room \<Rightarrow>
                 (case field message (str ''targetClientId'') of
                    JStr targetClientId \<Rightarrow>
                      (case map_of room targetClientId of
                         None \<Rightarrow> (st, [])
                       | Some target \<Rightarrow>
                           (st,
                            sendJson st (s_socket (heap st target))
                              (SignalRelayEvent (s_id (heap st session))
                                 (case field message (str ''payload'') of
                                    JUndefined \<Rightarrow> JNull
                                  | payload \<Rightarrow> payload))))
                  | _ \<Rightarrow> (st, []))))"

text \<open>\<open>freshId\<close> and \<open>now\<close> are the results of \<^verbatim>\<open>makeId()\<close> and \<^verbatim>\<open>Date.now()\<close>.\<close>

definition handleChatMessage :: "server \<Rightarrow> nat \<Rightarrow> json \<Rightarrow> jsString \<Rightarrow> int \<Rightarrow> server \<times> sent" where
  "handleChatMessage st session message freshId now =
     (case s_roomId (heap st session) of
        None \<Rightarrow> (st, [])
      | Some roomId \<Rightarrow>
          if roomId = [] then (st, [])
          else
            (case field message (str ''text'') of
               JStr text \<Rightarrow>
                 let messageId =
                       (case field message (str ''messageId'') of
                          JStr supplied \<Rightarrow> (if supplied \<noteq> [] then supplied else freshId)
                        | _ \<Rightarrow> freshId);
                     roomEvent = ChatEvent (s_id (heap st session)) text messageId now
                 in (st, broadcastToRoom st roomId roomEvent None)
             | _ \<Rightarrow> (st, [])))"

text \<open>
  The callbacks of a connection. \<open>clientId\<close> is the id that \<^verbatim>\<open>makeId()\<close> gave the
  connection, \<open>ws\<close> its socket.
\<close>

definition onOpen :: "server \<Rightarrow> jsString \<Rightarrow> nat \<Rightarrow> server \<times> sent" where
  "onOpen st clientId ws =
     (let session = nextRef st;
          st1 = st\<lparr>heap := (heap st)(session :=
                       \<lparr>s_id = clientId, s_socket = ws, s_roomId = None,
                        s_displayName = None, s_role = Guest\<rparr>),
                    nextRef := session + 1,
                    sessions := AList.update clientId session (sessions st)\<rparr>
      in (st1, sendJson st1 ws (WelcomeEvent clientId)))"

text \<open>\<open>data\<close> is the result of \<^verbatim>\<open>JSON.parse\<close> on the frame, \<open>None\<close> when it throws.\<close>

definition onMessage :: "unicodeCase \<Rightarrow> server \<Rightarrow> jsString \<Rightarrow> json option \<Rightarrow> jsString \<Rightarrow> int \<Rightarrow> server \<times> sent" where
  "onMessage uc st clientId data freshId now =
     (case map_of (sessions st) clientId of
        None \<Rightarrow> (st, [])
      | Some session \<Rightarrow>
          (case data of
             None \<Rightarrow> (st, [])
           | Some payload \<Rightarrow>
               if \<not> truthy payload \<or> \<not> isObject payload then (st, [])
               else if field payload (str ''type'') = JStr (str ''join'') then
                 handleJoinMessage uc st session payload
               else if field payload (str ''type'') = JStr (str ''signal'') then
                 handleSignalMessage st session payload
               else if field payload (str ''type'') = JStr (str ''chat'') then
                 handleChatMessage st session payload freshId now
               else (st, [])))"

definition onClose :: "server \<Rightarrow> jsString \<Rightarrow> server \<times> sent" where
  "onClose st clientId =
     (case map_of (sessions st) clientId of
        None \<Rightarrow> (st, [])
      | Some session \<Rightarrow>
          let (st1, out) = detachFromRoom st session
          in (st1\<lparr>sessions := AList.delete clientId (sessions st1)\<rparr>, out))"

text \<open>
  \<^verbatim>\<open>onError\<close> does the same and then asks the transport to close the socket; what that
  does to the socket's state is the transport's step below.
\<close>

definition onError :: "server \<Rightarrow> jsString \<Rightarrow> server \<times> sent" where
  "onError st clientId =
     (case map_of (sessions st) clientId of
        None \<Rightarrow> (st, [])
      | Some session \<Rightarrow>
          let (st1, out) = detachFromRoom st session
          in (st1\<lparr>sessions := AList.delete clientId (sessions st1)\<rparr>, out))"

text \<open>
  The events of the single-threaded loop, each handled to completion, and a run of
  them from the state at start-up, collecting what was sent.
\<close>

datatype event =
    Open jsString nat
  | Message jsString "json option" jsString int
  | Close jsString
  | Error jsString
  | Transport nat readyState

fun step :: "unicodeCase \<Rightarrow> server \<Rightarrow> event \<Rightarrow> server \<times> sent" where
  "step uc st (Open clientId ws) = onOpen st clientId ws"
| "step uc st (Message clientId data freshId now) = onMessage uc st clientId data freshId now"
| "step uc st (Close clientId) = onClose st clientId"
| "step uc st (Error clientId) = onError st clientId"
| "step uc st (Transport ws state) = (st\<lparr>readyStateOf := (readyStateOf st)(ws := state)\<rparr>, [])"

fun run :: "unicodeCase \<Rightarrow> server \<Rightarrow> event list \<Rightarrow> server \<times> sent" where
  "run uc st [] = (st, [])"
| "run uc st (e # es) =
     (case step uc st e of (st1, out) \<Rightarrow> (case run uc st1 es of (st2, outs) \<Rightarrow> (st2, out @ outs)))"

definition startUp :: server where
  "startUp =
     \<lparr>heap = (\<lambda>r. \<lparr>s_id = [], s_socket = 0, s_roomId = None, s_displayName = None, s_role = Guest\<rparr>),
      nextRef = 0, sessions = [], activeRooms = [], readyStateOf = (\<lambda>ws. OPEN)\<rparr>"

text \<open>
  The three parts of the membership invariant, as checks on a state: the room a
  registered session names exists and holds that session under its id; every member
  of every room is an object of the registry; no object is a member of two rooms.
\<close>

definition roomIdNamesRoom :: "server \<Rightarrow> bool" where
  "roomIdNamesRoom st =
     list_all (\<lambda>(clientId, session).
        (case s_roomId (heap st session) of
           None \<Rightarrow> True
         | Some code \<Rightarrow>
             (case map_of (activeRooms st) code of
                None \<Rightarrow> False
              | Some room \<Rightarrow> map_of room (s_id (heap st session)) = Some session)))
       (sessions st)"

definition membersRegistered :: "server \<Rightarrow> bool" where
  "membersRegistered st =
     list_all (\<lambda>(code, room).
        list_all (\<lambda>(clientId, member). map_of (sessions st) clientId = Some member) room)
       (activeRooms st)"

definition roomsOf :: "server \<Rightarrow> nat \<Rightarrow> jsString list" where
  "roomsOf st session =
     map fst (filter (\<lambda>(code, room). session \<in> snd ` set room) (activeRooms st))"

definition inOneRoomAtMost :: "server \<Rightarrow> bool" where
  "inOneRoomAtMost st =
     list_all (\<lambda>(code, room).
        list_all (\<lambda>(clientId, member). length (roomsOf st member) \<le> 1) room)
       (activeRooms st)"

text \<open>Frames, and a state with two sessions in one room and a third in none.\<close>

definition joinFrame :: "jsString \<Rightarrow> json option" where
  "joinFrame roomId = Some (JObj [(str ''type'', JStr (str ''join'')), (str ''roomId'', JStr roomId)])"

definition chatFrame :: "json \<Rightarrow> json \<Rightarrow> json option" where
  "chatFrame text messageId =
     Some (JObj [(str ''type'', JStr (str ''chat'')), (str ''text'', text), (str ''messageId'', messageId)])"

definition signalFrame :: "json \<Rightarrow> json \<Rightarrow> json option" where
  "signalFrame targetClientId payload =
     Some (JObj [(str ''type'', JStr (str ''signal'')), (str ''targetClientId'', targetClientId),
                 (str ''payload'', payload)])"

definition lobbyEvents :: "event list" where
  "lobbyEvents =
     [Open (str ''x'') 101, Open (str ''y'') 102, Open (str ''z'') 103,
      Message (str ''x'') (joinFrame (str ''lobby'')) (str ''f1'') 10,
      Message (str ''y'') (joinFrame (str '' Lobby '')) (str ''f2'') 11]"

definition lobby :: "unicodeCase \<Rightarrow> server" where
  "lobby uc = fst (run uc startUp lobbyEvents)"

text \<open>
  The scenario of the specification: X joins as host, Y joins the same room as guest,
  Y disconnects.
\<close>

definition scenarioEvents :: "event list" where
  "scenarioEvents =
     [Open (str ''X'') 101,
      Message (str ''X'') (Some (JObj [(str ''type'', JStr (str ''join'')), (str ''roomId'', JStr (str ''AB23CD'')),
                                 (str ''displayName'', JStr (str ''Alex'')), (str ''role'', JStr (str ''host''))]))
        (str ''f1'') 10,
      Open (str ''Y'') 102,
      Message (str ''Y'') (Some (JObj [(str ''type'', JStr (str ''join'')), (str ''roomId'', JStr (str ''AB23CD'')),
                                 (str ''displayName'', JStr (str ''Sam'')), (str ''role'', JStr (str ''guest''))]))
        (str ''f2'') 11,
      Close (str ''Y'')]"

text \<open>Two sessions that joined with a room code of one space.\<close>

definition blankRoomEvents :: "event list" where
  "blankRoomEvents =
     [Open (str ''x'') 101, Open (str ''y'') 102,
      Message (str ''x'') (joinFrame (str '' '')) (str ''f1'') 10,
      Message (str ''y'') (joinFrame (str '' '')) (str ''f2'') 11]"

definition blankRoom :: "unicodeCase \<Rightarrow> server" where
  "blankRoom uc = fst (run uc startUp blankRoomEvents)"

text \<open>
  The member that a room of the directory holds under a client id, if any, and the
  states that the events lead to from start-up. \<open>registered\<close> says what the registry
  promises about one of its entries: the object carries the key as its id, it has been
  allocated, and the room it names holds it under that id.
\<close>

definition memberAt :: "server \<Rightarrow> jsString \<Rightarrow> jsString \<Rightarrow> nat option" where
  "memberAt st code clientId =
     (case map_of (activeRooms st) code of None \<Rightarrow> None | Some room \<Rightarrow> map_of room clientId)"

definition registered :: "server \<Rightarrow> jsString \<Rightarrow> nat \<Rightarrow> bool" where
  "registered st clientId session \<longleftrightarrow>
     s_id (heap st session) = clientId \<and> session < nextRef st \<and>
     (\<forall>code. s_roomId (heap st session) = Some code \<longrightarrow>
        memberAt st code clientId = Some session)"

definition registryInvariant :: "server \<Rightarrow> bool" where
  "registryInvariant st \<longleftrightarrow>
     (\<forall>clientId session. map_of (sessions st) clientId = Some session \<longrightarrow>
        registered st clientId session)"

inductive reachable :: "unicodeCase \<Rightarrow> server \<Rightarrow> bool" for uc where
  reachable_startUp: "reachable uc startUp"
| reachable_step: "reachable uc st \<Longrightarrow> reachable uc (fst (step uc st e))"

text \<open>
  The runs without the two irregularities: a connection opens with an id that is not
  registered at that moment, and no join names a room code that normalises to the
  empty string. \<open>membersKnown\<close> is what the directory promises about its entries in
  such runs; \<open>roomsDistinct\<close> says that the association lists are maps.
\<close>

definition plainEvent :: "unicodeCase \<Rightarrow> server \<Rightarrow> event \<Rightarrow> bool" where
  "plainEvent uc st e =
     (case e of
        Open clientId ws \<Rightarrow> map_of (sessions st) clientId = None
      | Message clientId data freshId now \<Rightarrow>
          (case data of
             None \<Rightarrow> True
           | Some payload \<Rightarrow>
               (case field payload (str ''roomId'') of
                  JStr raw \<Rightarrow> toUpperCase uc (trim raw) \<noteq> [] \<or> field payload (str ''type'') \<noteq> JStr (str ''join'')
                | _ \<Rightarrow> True))
      | _ \<Rightarrow> True)"

inductive regular :: "unicodeCase \<Rightarrow> server \<Rightarrow> bool" for uc where
  regular_startUp: "regular uc startUp"
| regular_step: "regular uc st \<Longrightarrow> plainEvent uc st e \<Longrightarrow> regular uc (fst (step uc st e))"

definition roomsDistinct :: "server \<Rightarrow> bool" where
  "roomsDistinct st \<longleftrightarrow>
     distinct (map fst (activeRooms st)) \<and>
     (\<forall>(code, room) \<in> set (activeRooms st). distinct (map fst room))"

definition membersKnown :: "server \<Rightarrow> bool" where
  "membersKnown st \<longleftrightarrow>
     (\<forall>code clientId session. memberAt st code clientId = Some session \<longrightarrow>
        map_of (sessions st) clientId = Some session \<and>
        s_roomId (heap st session) = Some code \<and> code \<noteq> [])"

section \<open>The earlier revision of the server (index.ts)\<close>

text \<open>
  The file \<^verbatim>\<open>index.ts\<close> beside the store is an earlier revision of the server, from
  before the rooms: a session is an id and a socket, and a chat message goes to every
  session. Its \<^verbatim>\<open>sendJson\<close> is the one above; only its message callback is needed
  here.
\<close>

record PocSession =
  q_id :: jsString
  q_socket :: nat

record pocServer =
  q_sessions :: "(jsString \<times> PocSession) list"
  q_readyStateOf :: "nat \<Rightarrow> readyState"

definition pocSendJson :: "pocServer \<Rightarrow> nat \<Rightarrow> OutgoingServerMessage \<Rightarrow> sent" where
  "pocSendJson st socket payload =
     (if q_readyStateOf st socket \<noteq> OPEN then [] else [(socket, payload)])"

definition broadcast :: "pocServer \<Rightarrow> OutgoingServerMessage \<Rightarrow> sent" where
  "broadcast st payload =
     concat (map (\<lambda>(clientId, client). pocSendJson st (q_socket client) payload) (q_sessions st))"

definition pocOnMessage ::
  "pocServer \<Rightarrow> jsString \<Rightarrow> json option \<Rightarrow> jsString \<Rightarrow> int \<Rightarrow> pocServer \<times> sent" where
  "pocOnMessage st clientId data freshId now =
     (case data of
        None \<Rightarrow> (st, [])
      | Some payload \<Rightarrow>
          if \<not> truthy payload \<or> field payload (str ''type'') \<noteq> JStr (str ''chat'')
          then (st, [])
          else
            (case field payload (str ''text'') of
               JStr text \<Rightarrow>
                 let messageId =
                       (case field payload (str ''messageId'') of
                          JStr supplied \<Rightarrow> (if supplied \<noteq> [] then supplied else freshId)
                        | _ \<Rightarrow> freshId)
                 in (st, broadcast st (ChatEvent clientId text messageId now))
             | _ \<Rightarrow> (st, [])))"

section \<open>Room codes\<close>

lemma of_char_less: "(of_char c :: nat) < 256"
  by (cases c) (simp add: of_char_def)

lemma unit_inject: "(of_nat (of_char c) :: 16 word) = of_nat (of_char d) \<longleftrightarrow> c = d"
proof
  assume "(of_nat (of_char c) :: 16 word) = of_nat (of_char d)"
  then have "unat (of_nat (of_char c) :: 16 word) = unat (of_nat (of_char d) :: 16 word)" by simp
  moreover have "unat (of_nat (of_char x) :: 16 word) = of_char x" for x
  proof -
    have "(256 :: nat) \<le> 2 ^ LENGTH(16)" by simp
    then have "(of_char x :: nat) < 2 ^ LENGTH(16)"
      using of_char_less [of x] by (rule less_le_trans [rotated])
    then show ?thesis by (intro of_nat_inverse refl)
  qed
  ultimately show "c = d" by simp
qed simp

lemma str_inject [simp]: "str a = str b \<longleftrightarrow> a = b"
  unfolding str_def by (simp add: inj_map_eq_map inj_on_def unit_inject)

lemma str_Nil [simp]: "str s = [] \<longleftrightarrow> s = []" "[] = str s \<longleftrightarrow> s = []"
  by (auto simp: str_def)

lemma length_str [simp]: "length (str s) = length s"
  by (simp add: str_def)

lemma toUpperCase_Nil [simp]: "toUpperCase uc [] = []"
  by (simp add: toUpperCase_def)

lemma trim_id:
  assumes "\<forall>c\<in>set s. \<not> isWhiteSpace c"
  shows "trim s = s"
proof -
  have "dropWhile isWhiteSpace s = s" using assms by (cases s) auto
  moreover have "dropWhile isWhiteSpace (rev s) = rev s"
    using assms by (cases s rule: rev_cases) auto
  ultimately show ?thesis by (simp add: trim_def)
qed

lemma alphabet_all:
  "list_all (\<lambda>c. \<not> isWhiteSpace c \<and> isAscii c \<and> toUpperCaseAscii c = c) ROOM_ID_ALPHABET"
  by code_simp

lemma alphabet_chars:
  "c \<in> set ROOM_ID_ALPHABET \<Longrightarrow> \<not> isWhiteSpace c \<and> isAscii c \<and> toUpperCaseAscii c = c"
  using alphabet_all unfolding list_all_iff by blast

lemma length_alphabet: "length ROOM_ID_ALPHABET = 31"
  by (simp add: ROOM_ID_ALPHABET_def)

lemma sampleCode_length: "length (sampleCode r) = 6"
  by (simp add: sampleCode_def ROOM_ID_LENGTH_def)

lemma sampleCode_alphabet: "set (sampleCode r) \<subseteq> set ROOM_ID_ALPHABET"
  by (auto simp: sampleCode_def length_alphabet)

lemma normalize_sampleCode: "normalizeRoomId uc (sampleCode r) = sampleCode r"
proof -
  have a: "\<forall>c\<in>set (sampleCode r). \<not> isWhiteSpace c \<and> isAscii c \<and> toUpperCaseAscii c = c"
    using sampleCode_alphabet alphabet_chars by blast
  then have "trim (sampleCode r) = sampleCode r" by (simp add: trim_id)
  moreover have "list_all isAscii (sampleCode r)" using a by (simp add: list_all_iff)
  moreover have "map toUpperCaseAscii (sampleCode r) = sampleCode r"
    using a by (simp add: map_idI)
  ultimately show ?thesis by (simp add: normalizeRoomId_def toUpperCase_def)
qed

lemma generateRoomIdFrom_Inr:
  "generateRoomIdFrom uc n ex rnd = Inr c \<longleftrightarrow>
     (\<exists>a. n \<le> a \<and> a < 20 \<and> c = sampleCode (rnd a) \<and> c \<notin> ex \<and>
          (\<forall>b. n \<le> b \<and> b < a \<longrightarrow> sampleCode (rnd b) \<in> ex))"
proof (induction uc n ex rnd rule: generateRoomIdFrom.induct)
  case (1 uc attempts existingIds rnd)
  show ?case
  proof (cases "attempts < 20")
    case False
    then show ?thesis by (simp add: generateRoomIdFrom.simps)
  next
    case lt: True
    show ?thesis
    proof (cases "sampleCode (rnd attempts) \<in> existingIds")
      case False
      have "generateRoomIdFrom uc attempts existingIds rnd = Inr (sampleCode (rnd attempts))"
        using lt False by (simp add: generateRoomIdFrom.simps [of _ attempts] normalize_sampleCode)
      moreover have "(\<exists>a. attempts \<le> a \<and> a < 20 \<and> c = sampleCode (rnd a) \<and> c \<notin> existingIds \<and>
          (\<forall>b. attempts \<le> b \<and> b < a \<longrightarrow> sampleCode (rnd b) \<in> existingIds)) \<longleftrightarrow> c = sampleCode (rnd attempts)"
      proof
        assume "\<exists>a. attempts \<le> a \<and> a < 20 \<and> c = sampleCode (rnd a) \<and> c \<notin> existingIds \<and>
          (\<forall>b. attempts \<le> b \<and> b < a \<longrightarrow> sampleCode (rnd b) \<in> existingIds)"
        then obtain a where a: "attempts \<le> a" "c = sampleCode (rnd a)"
          "\<forall>b. attempts \<le> b \<and> b < a \<longrightarrow> sampleCode (rnd b) \<in> existingIds" by blast
        have "\<not> attempts < a" using a(3) False by blast
        then have "a = attempts" using a(1) by simp
        then show "c = sampleCode (rnd attempts)" using a(2) by simp
      next
        assume "c = sampleCode (rnd attempts)"
        then have "attempts \<le> attempts \<and> attempts < 20 \<and> c = sampleCode (rnd attempts) \<and> c \<notin> existingIds \<and>
          (\<forall>b. attempts \<le> b \<and> b < attempts \<longrightarrow> sampleCode (rnd b) \<in> existingIds)"
          using lt False by auto
        then show "\<exists>a. attempts \<le> a \<and> a < 20 \<and> c = sampleCode (rnd a) \<and> c \<notin> existingIds \<and>
          (\<forall>b. attempts \<le> b \<and> b < a \<longrightarrow> sampleCode (rnd b) \<in> existingIds)" by blast
      qed
      ultimately show ?thesis by auto
    next
      case True
      have unfold1: "generateRoomIdFrom uc attempts existingIds rnd = generateRoomIdFrom uc (attempts + 1) existingIds rnd"
        using lt True by (simp add: generateRoomIdFrom.simps [of _ attempts] normalize_sampleCode)
      have ih: "generateRoomIdFrom uc (attempts + 1) existingIds rnd = Inr c \<longleftrightarrow>
         (\<exists>a. attempts + 1 \<le> a \<and> a < 20 \<and> c = sampleCode (rnd a) \<and> c \<notin> existingIds \<and>
          (\<forall>b. attempts + 1 \<le> b \<and> b < a \<longrightarrow> sampleCode (rnd b) \<in> existingIds))"
        using "1.IH" [OF lt refl] True by (simp add: normalize_sampleCode)
      have "(\<exists>a. attempts + 1 \<le> a \<and> a < 20 \<and> c = sampleCode (rnd a) \<and> c \<notin> existingIds \<and>
          (\<forall>b. attempts + 1 \<le> b \<and> b < a \<longrightarrow> sampleCode (rnd b) \<in> existingIds)) \<longleftrightarrow>
         (\<exists>a. attempts \<le> a \<and> a < 20 \<and> c = sampleCode (rnd a) \<and> c \<notin> existingIds \<and>
          (\<forall>b. attempts \<le> b \<and> b < a \<longrightarrow> sampleCode (rnd b) \<in> existingIds))" (is "?L \<longleftrightarrow> ?R")
      proof
        assume ?L
        then obtain a where a: "attempts + 1 \<le> a" "a < 20" "c = sampleCode (rnd a)" "c \<notin> existingIds"
          "\<forall>b. attempts + 1 \<le> b \<and> b < a \<longrightarrow> sampleCode (rnd b) \<in> existingIds" by blast
        have "\<forall>b. attempts \<le> b \<and> b < a \<longrightarrow> sampleCode (rnd b) \<in> existingIds"
        proof (intro allI impI)
          fix b assume b: "attempts \<le> b \<and> b < a"
          show "sampleCode (rnd b) \<in> existingIds"
          proof (cases "b = attempts")
            case True then show ?thesis using \<open>sampleCode (rnd attempts) \<in> existingIds\<close> by simp
          next
            case False then show ?thesis using a(5) b by auto
          qed
        qed
        then show ?R using a by (intro exI [of _ a]) auto
      next
        assume ?R
        then obtain a where a: "attempts \<le> a" "a < 20" "c = sampleCode (rnd a)" "c \<notin> existingIds"
          "\<forall>b. attempts \<le> b \<and> b < a \<longrightarrow> sampleCode (rnd b) \<in> existingIds" by blast
        have "a \<noteq> attempts" using a True by auto
        then show ?L using a by (intro exI [of _ a]) auto
      qed
      then show ?thesis using unfold1 ih by simp
    qed
  qed
qed

lemma generateRoomIdFrom_Inl:
  "generateRoomIdFrom uc n ex rnd = Inl e \<longleftrightarrow>
     (e = AllocationError \<and> (\<forall>a. n \<le> a \<and> a < 20 \<longrightarrow> sampleCode (rnd a) \<in> ex))"
proof (induction uc n ex rnd rule: generateRoomIdFrom.induct)
  case (1 uc attempts existingIds rnd)
  show ?case
  proof (cases "attempts < 20")
    case False
    then show ?thesis by (auto simp add: generateRoomIdFrom.simps [of _ attempts])
  next
    case lt: True
    show ?thesis
    proof (cases "sampleCode (rnd attempts) \<in> existingIds")
      case False
      have "generateRoomIdFrom uc attempts existingIds rnd = Inr (sampleCode (rnd attempts))"
        using lt False by (simp add: generateRoomIdFrom.simps [of _ attempts] normalize_sampleCode)
      then show ?thesis using lt False by auto
    next
      case True
      have unfold1: "generateRoomIdFrom uc attempts existingIds rnd = generateRoomIdFrom uc (attempts + 1) existingIds rnd"
        using lt True by (simp add: generateRoomIdFrom.simps [of _ attempts] normalize_sampleCode)
      have ih: "generateRoomIdFrom uc (attempts + 1) existingIds rnd = Inl e \<longleftrightarrow>
         (e = AllocationError \<and> (\<forall>a. attempts + 1 \<le> a \<and> a < 20 \<longrightarrow> sampleCode (rnd a) \<in> existingIds))"
        using "1.IH" [OF lt refl] True by (simp add: normalize_sampleCode)
      have "(\<forall>a. attempts + 1 \<le> a \<and> a < 20 \<longrightarrow> sampleCode (rnd a) \<in> existingIds) \<longleftrightarrow>
            (\<forall>a. attempts \<le> a \<and> a < 20 \<longrightarrow> sampleCode (rnd a) \<in> existingIds)"
      proof
        assume h: "\<forall>a. attempts + 1 \<le> a \<and> a < 20 \<longrightarrow> sampleCode (rnd a) \<in> existingIds"
        show "\<forall>a. attempts \<le> a \<and> a < 20 \<longrightarrow> sampleCode (rnd a) \<in> existingIds"
        proof (intro allI impI)
          fix a assume a: "attempts \<le> a \<and> a < 20"
          show "sampleCode (rnd a) \<in> existingIds"
          proof (cases "a = attempts")
            case True then show ?thesis using \<open>sampleCode (rnd attempts) \<in> existingIds\<close> by simp
          next
            case False
            then have "attempts + 1 \<le> a \<and> a < 20" using a by simp
            then show ?thesis using h by blast
          qed
        qed
      next
        assume h: "\<forall>a. attempts \<le> a \<and> a < 20 \<longrightarrow> sampleCode (rnd a) \<in> existingIds"
        show "\<forall>a. attempts + 1 \<le> a \<and> a < 20 \<longrightarrow> sampleCode (rnd a) \<in> existingIds"
        proof (intro allI impI)
          fix a assume "attempts + 1 \<le> a \<and> a < 20"
          then have "attempts \<le> a \<and> a < 20" by simp
          then show "sampleCode (rnd a) \<in> existingIds" using h by blast
        qed
      qed
      then show ?thesis using unfold1 ih by simp
    qed
  qed
qed

lemma generateRoomId_cases:
  "(if \<forall>a<20. sampleCode (rnd a) \<in> ex then generateRoomId uc ex rnd = Inl AllocationError
    else \<exists>a<20. (\<forall>b<a. sampleCode (rnd b) \<in> ex) \<and> sampleCode (rnd a) \<notin> ex \<and>
           generateRoomId uc ex rnd = Inr (sampleCode (rnd a)))"
proof (cases "generateRoomId uc ex rnd")
  case (Inl e)
  then have "e = AllocationError \<and> (\<forall>a. 0 \<le> a \<and> a < 20 \<longrightarrow> sampleCode (rnd a) \<in> ex)"
    using generateRoomIdFrom_Inl [of _ 0 ex rnd e] unfolding generateRoomId_def by blast
  then have all: "\<forall>a<20. sampleCode (rnd a) \<in> ex" and res: "generateRoomId uc ex rnd = Inl AllocationError"
    using Inl by blast+
  show ?thesis unfolding if_P [OF all] by (rule res)
next
  case (Inr c)
  then have "\<exists>a. 0 \<le> a \<and> a < 20 \<and> c = sampleCode (rnd a) \<and> c \<notin> ex \<and>
          (\<forall>b. 0 \<le> b \<and> b < a \<longrightarrow> sampleCode (rnd b) \<in> ex)"
    using generateRoomIdFrom_Inr [of _ 0 ex rnd c] unfolding generateRoomId_def by blast
  then obtain a where a: "a < 20" "c = sampleCode (rnd a)" "c \<notin> ex" "\<forall>b<a. sampleCode (rnd b) \<in> ex"
    by blast
  then have n: "\<not> (\<forall>a<20. sampleCode (rnd a) \<in> ex)" by blast
  have ex: "\<exists>a<20. (\<forall>b<a. sampleCode (rnd b) \<in> ex) \<and> sampleCode (rnd a) \<notin> ex \<and>
           generateRoomId uc ex rnd = Inr (sampleCode (rnd a))"
    using a Inr by blast
  show ?thesis unfolding if_not_P [OF n] by (rule ex)
qed

lemma createRoom_Inr:
  assumes "createRoom uc rooms rnd t c = (Inr r, rooms')"
  shows "cr_roomId r \<notin> fst ` set rooms \<and> length (cr_roomId r) = 6 \<and>
         set (cr_roomId r) \<subseteq> set ROOM_ID_ALPHABET \<and>
         fst ` set rooms' = insert (cr_roomId r) (fst ` set rooms)"
proof -
  from assms obtain rid where g: "generateRoomId uc (set (map fst rooms)) rnd = Inr rid"
    and r: "cr_roomId r = rid"
    and rooms': "rooms' = AList.update rid \<lparr>r_id = rid, r_createdAt = c, r_hostToken = t, r_participants = []\<rparr> rooms"
    by (auto simp: createRoom_def split: sum.splits)
  from g obtain a where "rid = sampleCode (rnd a)" "rid \<notin> set (map fst rooms)"
    using generateRoomIdFrom_Inr [of _ 0 _ rnd rid] by (auto simp: generateRoomId_def)
  then show ?thesis
    using r rooms' sampleCode_length sampleCode_alphabet by (auto simp: dom_update)
qed

lemma createRoom_Inl:
  assumes "createRoom uc rooms rnd t c = (Inl e, rooms')"
  shows "rooms' = rooms"
  using assms by (auto simp: createRoom_def split: sum.splits)

lemma createRooms_ids:
  "createRooms uc rooms calls = (ress, rooms') \<Longrightarrow>
     distinct (returnedRoomIds ress) \<and>
     set (returnedRoomIds ress) \<inter> fst ` set rooms = {} \<and>
     fst ` set rooms' = fst ` set rooms \<union> set (returnedRoomIds ress) \<and>
     (\<forall>roomId\<in>set (returnedRoomIds ress). length roomId = 6 \<and> set roomId \<subseteq> set ROOM_ID_ALPHABET)"
proof (induction calls arbitrary: rooms ress rooms')
  case Nil
  then show ?case by simp
next
  case (Cons call calls)
  obtain rnd t c where call: "call = (rnd, t, c)" by (cases call)
  obtain res rooms1 where one: "createRoom uc rooms rnd t c = (res, rooms1)" by (cases "createRoom uc rooms rnd t c")
  obtain ress1 rooms2 where rest: "createRooms uc rooms1 calls = (ress1, rooms2)" by (cases "createRooms uc rooms1 calls")
  from Cons.prems call one rest have ress: "ress = res # ress1" and r2: "rooms' = rooms2" by auto
  note ih = Cons.IH [OF rest]
  show ?case
  proof (cases res)
    case (Inl e)
    then have "rooms1 = rooms" using one createRoom_Inl by blast
    then show ?thesis using ih ress r2 Inl by simp
  next
    case (Inr r)
    note f = createRoom_Inr [OF one [unfolded Inr]]
    have ids: "returnedRoomIds ress = cr_roomId r # returnedRoomIds ress1"
      using ress Inr by simp
    have k1: "fst ` set rooms1 = insert (cr_roomId r) (fst ` set rooms)" using f by blast
    have fresh: "cr_roomId r \<notin> fst ` set rooms" using f by blast
    have d1: "distinct (returnedRoomIds ress1)" using ih by blast
    have dj: "set (returnedRoomIds ress1) \<inter> fst ` set rooms1 = {}" using ih by blast
    have k2: "fst ` set rooms2 = fst ` set rooms1 \<union> set (returnedRoomIds ress1)" using ih by blast
    have sh: "\<forall>roomId\<in>set (returnedRoomIds ress1). length roomId = 6 \<and> set roomId \<subseteq> set ROOM_ID_ALPHABET"
      using ih by blast
    have c1: "distinct (returnedRoomIds ress)" using ids d1 dj k1 by auto
    have c2: "set (returnedRoomIds ress) \<inter> fst ` set rooms = {}"
      unfolding ids using dj fresh unfolding k1 by auto
    have c3: "fst ` set rooms' = fst ` set rooms \<union> set (returnedRoomIds ress)"
      unfolding ids r2 k2 k1 by auto
    have c4: "\<forall>roomId\<in>set (returnedRoomIds ress). length roomId = 6 \<and> set roomId \<subseteq> set ROOM_ID_ALPHABET"
      unfolding ids using sh f by simp
    show ?thesis using c1 c2 c3 c4 by blast
  qed
qed

lemma createRoom_cases:
  "if \<forall>attempt<20. sampleCode (rnd attempt) \<in> fst ` set rooms
   then createRoom uc rooms rnd hostToken createdAt = (Inl AllocationError, rooms)
   else \<exists>attempt<20.
          (\<forall>earlier<attempt. sampleCode (rnd earlier) \<in> fst ` set rooms) \<and>
          sampleCode (rnd attempt) \<notin> fst ` set rooms \<and>
          fst (createRoom uc rooms rnd hostToken createdAt) =
            Inr \<lparr>cr_roomId = sampleCode (rnd attempt), cr_hostToken = hostToken,
                 cr_createdAt = createdAt\<rparr>"
proof (cases "\<forall>attempt<20. sampleCode (rnd attempt) \<in> fst ` set rooms")
  case True
  have "generateRoomId uc (fst ` set rooms) rnd = Inl AllocationError"
    using generateRoomId_cases [of rnd "fst ` set rooms"] unfolding if_P [OF True] .
  then have cr: "createRoom uc rooms rnd hostToken createdAt = (Inl AllocationError, rooms)"
    by (simp add: createRoom_def)
  show ?thesis unfolding if_P [OF True] by (rule cr)
next
  case False
  have "\<exists>a<20. (\<forall>b<a. sampleCode (rnd b) \<in> fst ` set rooms) \<and>
           sampleCode (rnd a) \<notin> fst ` set rooms \<and>
           generateRoomId uc (fst ` set rooms) rnd = Inr (sampleCode (rnd a))"
    using generateRoomId_cases [of rnd "fst ` set rooms"] unfolding if_not_P [OF False] .
  then obtain a where a: "a < 20" "\<forall>b<a. sampleCode (rnd b) \<in> fst ` set rooms"
      "sampleCode (rnd a) \<notin> fst ` set rooms"
      "generateRoomId uc (fst ` set rooms) rnd = Inr (sampleCode (rnd a))"
    by blast
  have "fst (createRoom uc rooms rnd hostToken createdAt) =
      Inr \<lparr>cr_roomId = sampleCode (rnd a), cr_hostToken = hostToken, cr_createdAt = createdAt\<rparr>"
    using a(4) by (simp add: createRoom_def)
  then have ex: "\<exists>attempt<20.
          (\<forall>earlier<attempt. sampleCode (rnd earlier) \<in> fst ` set rooms) \<and>
          sampleCode (rnd attempt) \<notin> fst ` set rooms \<and>
          fst (createRoom uc rooms rnd hostToken createdAt) =
            Inr \<lparr>cr_roomId = sampleCode (rnd attempt), cr_hostToken = hostToken,
                 cr_createdAt = createdAt\<rparr>"
    using a(1,2,3) by blast
  show ?thesis unfolding if_not_P [OF False] by (rule ex)
qed

text \<open>
  C3. In every run of \<^verbatim>\<open>createRoom\<close> calls on one store the returned room codes are
  pairwise distinct (and differ from the codes the store already had), each is
  \<open>ROOM_ID_LENGTH\<close> characters long and drawn from \<open>ROOM_ID_ALPHABET\<close>. A sampled code
  that is already a key is retried: the call returns the first of its twenty samples
  that is free, and when all twenty are taken it throws the allocation error and
  leaves the store as it was.
\<close>

theorem createRoom_ids_distinct:
  "distinct (returnedRoomIds (fst (createRooms uc rooms calls))) \<and>
   (\<forall>roomId\<in>set (returnedRoomIds (fst (createRooms uc rooms calls))).
      roomId \<notin> fst ` set rooms \<and> length roomId = ROOM_ID_LENGTH \<and>
      set roomId \<subseteq> set ROOM_ID_ALPHABET) \<and>
   (\<forall>rnd hostToken createdAt.
      if \<forall>attempt<20. sampleCode (rnd attempt) \<in> fst ` set rooms
      then createRoom uc rooms rnd hostToken createdAt = (Inl AllocationError, rooms)
      else \<exists>attempt<20.
             (\<forall>earlier<attempt. sampleCode (rnd earlier) \<in> fst ` set rooms) \<and>
             sampleCode (rnd attempt) \<notin> fst ` set rooms \<and>
             fst (createRoom uc rooms rnd hostToken createdAt) =
               Inr \<lparr>cr_roomId = sampleCode (rnd attempt), cr_hostToken = hostToken,
                    cr_createdAt = createdAt\<rparr>)"
proof -
  obtain ress rooms' where c: "createRooms uc rooms calls = (ress, rooms')"
    by (cases "createRooms uc rooms calls")
  note f = createRooms_ids [OF c]
  have e: "fst (createRooms uc rooms calls) = ress" using c by simp
  have a: "distinct (returnedRoomIds (fst (createRooms uc rooms calls)))"
    unfolding e using f by blast
  have b: "\<forall>roomId\<in>set (returnedRoomIds (fst (createRooms uc rooms calls))).
      roomId \<notin> fst ` set rooms \<and> length roomId = ROOM_ID_LENGTH \<and>
      set roomId \<subseteq> set ROOM_ID_ALPHABET"
    unfolding e ROOM_ID_LENGTH_def using f by blast
  show ?thesis using a b createRoom_cases [of _ rooms] by (intro conjI allI)
qed

theorem createRoom_ids_distinct_witness:
  "fst (createRooms identityCase [] demoCalls) =
     [Inr \<lparr>cr_roomId = str ''AAAAAA'', cr_hostToken = str ''t1'', cr_createdAt = 1\<rparr>,
      Inr \<lparr>cr_roomId = str ''BBBBBB'', cr_hostToken = str ''t2'', cr_createdAt = 2\<rparr>,
      Inl AllocationError] \<and>
   distinct (returnedRoomIds (fst (createRooms identityCase [] demoCalls)))"
proof -
  have ev: "fst (createRooms identityCase [] demoCalls) =
     [Inr \<lparr>cr_roomId = str ''AAAAAA'', cr_hostToken = str ''t1'', cr_createdAt = 1\<rparr>,
      Inr \<lparr>cr_roomId = str ''BBBBBB'', cr_hostToken = str ''t2'', cr_createdAt = 2\<rparr>,
      Inl AllocationError]"
    by code_simp
  have "distinct (returnedRoomIds (fst (createRooms identityCase [] demoCalls)))"
    using createRoom_ids_distinct [of identityCase "[]" demoCalls] by (rule conjunct1)
  with ev show ?thesis by (rule conjI)
qed

section \<open>Joining a ledger room\<close>

lemma trim_empty: "trim s = [] \<Longrightarrow> normalizeRoomId uc s = []"
  by (simp add: normalizeRoomId_def)

lemma requestedRole_Host: "requestedRole v = Host \<longleftrightarrow> v = JStr (str ''host'')"
  by (simp add: requestedRole_def)

lemma joinRoom_found:
  assumes "map_of rooms (normalizeRoomId uc raw) = Some room" "normalizeRoomId uc raw \<noteq> []"
  shows "joinRoom uc rooms (JStr raw) options participantId joinedAt =
     (if o_role options = JStr (str ''host'') \<and>
         (\<not> truthy (o_hostToken options) \<or> o_hostToken options \<noteq> JStr (r_hostToken room))
      then (Inl InvalidHostTokenError, rooms)
      else addParticipant rooms (normalizeRoomId uc raw) room (requestedRole (o_role options))
             (cleanDisplayName (o_displayName options)) participantId joinedAt)"
proof -
  have "trim raw \<noteq> []" using assms(2) trim_empty by blast
  then show ?thesis using assms(1)
    by (simp add: joinRoom_def Let_def requestedRole_Host)
qed

lemma demo_found:
  "map_of demoStore (normalizeRoomId uc (str ''ab23cd'')) = Some demoRoom" "normalizeRoomId uc (str ''ab23cd'') \<noteq> []"
proof -
  have n: "normalizeRoomId uc (str ''ab23cd'') = str ''AB23CD''" by code_simp
  show "map_of demoStore (normalizeRoomId uc (str ''ab23cd'')) = Some demoRoom" unfolding n by (simp add: demoStore_def)
  show "normalizeRoomId uc (str ''ab23cd'') \<noteq> []" unfolding n by simp
qed



text \<open>
  C2 (as amended). For a room of the ledger and a \<^verbatim>\<open>joinRoom\<close> call with role \<^verbatim>\<open>"host"\<close>:
  when the supplied token is the room's token and is not the empty string, the call
  returns the new participant with role \<^verbatim>\<open>host\<close> and stores it in the room under its
  id; with any other value (another string, the empty string, null, undefined) it
  throws \<^verbatim>\<open>InvalidHostTokenError\<close> and the store is unchanged. With role \<^verbatim>\<open>"guest"\<close> or
  no role the call returns and stores a \<^verbatim>\<open>guest\<close> participant whatever the token field
  holds.
\<close>

theorem joinRoom_host_token:
  assumes "map_of rooms (normalizeRoomId uc raw) = Some room" and "normalizeRoomId uc raw \<noteq> []"
  shows "(o_role options = JStr (str ''host'') \<and> o_hostToken options = JStr (r_hostToken room) \<and>
            o_hostToken options \<noteq> JStr [] \<longrightarrow>
          joinRoom uc rooms (JStr raw) options participantId joinedAt =
            (Inr \<lparr>jr_roomId = normalizeRoomId uc raw, jr_participantId = participantId,
                  jr_role = Host, jr_displayName = cleanDisplayName (o_displayName options),
                  jr_joinedAt = joinedAt\<rparr>,
             AList.update (normalizeRoomId uc raw)
               (room\<lparr>r_participants :=
                  AList.update participantId
                    \<lparr>p_participantId = participantId,
                     p_displayName = cleanDisplayName (o_displayName options),
                     p_role = Host, p_joinedAt = joinedAt\<rparr>
                    (r_participants room)\<rparr>)
               rooms)) \<and>
         (o_role options = JStr (str ''host'') \<and>
            (o_hostToken options \<noteq> JStr (r_hostToken room) \<or> o_hostToken options = JStr []) \<longrightarrow>
          joinRoom uc rooms (JStr raw) options participantId joinedAt =
            (Inl InvalidHostTokenError, rooms)) \<and>
         (o_role options = JStr (str ''guest'') \<or> o_role options = JUndefined \<longrightarrow>
          (\<forall>token. joinRoom uc rooms (JStr raw) (options\<lparr>o_hostToken := token\<rparr>) participantId joinedAt =
            (Inr \<lparr>jr_roomId = normalizeRoomId uc raw, jr_participantId = participantId,
                  jr_role = Guest, jr_displayName = cleanDisplayName (o_displayName options),
                  jr_joinedAt = joinedAt\<rparr>,
             AList.update (normalizeRoomId uc raw)
               (room\<lparr>r_participants :=
                  AList.update participantId
                    \<lparr>p_participantId = participantId,
                     p_displayName = cleanDisplayName (o_displayName options),
                     p_role = Guest, p_joinedAt = joinedAt\<rparr>
                    (r_participants room)\<rparr>)
               rooms)))"
proof (intro conjI impI allI)
  assume "o_role options = JStr (str ''host'') \<and> o_hostToken options = JStr (r_hostToken room) \<and>
            o_hostToken options \<noteq> JStr []"
  then show "joinRoom uc rooms (JStr raw) options participantId joinedAt =
            (Inr \<lparr>jr_roomId = normalizeRoomId uc raw, jr_participantId = participantId,
                  jr_role = Host, jr_displayName = cleanDisplayName (o_displayName options),
                  jr_joinedAt = joinedAt\<rparr>,
             AList.update (normalizeRoomId uc raw)
               (room\<lparr>r_participants :=
                  AList.update participantId
                    \<lparr>p_participantId = participantId,
                     p_displayName = cleanDisplayName (o_displayName options),
                     p_role = Host, p_joinedAt = joinedAt\<rparr>
                    (r_participants room)\<rparr>)
               rooms)"
    unfolding joinRoom_found [OF assms]
    by (auto simp: requestedRole_def addParticipant_def)
next
  assume "o_role options = JStr (str ''host'') \<and>
            (o_hostToken options \<noteq> JStr (r_hostToken room) \<or> o_hostToken options = JStr [])"
  then show "joinRoom uc rooms (JStr raw) options participantId joinedAt =
            (Inl InvalidHostTokenError, rooms)"
    unfolding joinRoom_found [OF assms] by auto
next
  fix token
  assume "o_role options = JStr (str ''guest'') \<or> o_role options = JUndefined"
  then show "joinRoom uc rooms (JStr raw) (options\<lparr>o_hostToken := token\<rparr>) participantId joinedAt =
            (Inr \<lparr>jr_roomId = normalizeRoomId uc raw, jr_participantId = participantId,
                  jr_role = Guest, jr_displayName = cleanDisplayName (o_displayName options),
                  jr_joinedAt = joinedAt\<rparr>,
             AList.update (normalizeRoomId uc raw)
               (room\<lparr>r_participants :=
                  AList.update participantId
                    \<lparr>p_participantId = participantId,
                     p_displayName = cleanDisplayName (o_displayName options),
                     p_role = Guest, p_joinedAt = joinedAt\<rparr>
                    (r_participants room)\<rparr>)
               rooms)"
    unfolding joinRoom_found [OF assms]
    by (auto simp: requestedRole_def addParticipant_def)
qed

theorem joinRoom_host_token_witness:
  "joinRoom identityCase demoStore (JStr (str ''ab23cd'')) (hostOptions (JStr (str ''t1''))) (str ''p1'') 7 =
     (Inr \<lparr>jr_roomId = str ''AB23CD'', jr_participantId = str ''p1'', jr_role = Host,
           jr_displayName = Some (str ''Alex''), jr_joinedAt = 7\<rparr>,
      [(str ''AB23CD'',
        \<lparr>r_id = str ''AB23CD'', r_createdAt = 5, r_hostToken = str ''t1'',
         r_participants =
           [(str ''p1'', \<lparr>p_participantId = str ''p1'', p_displayName = Some (str ''Alex''),
                          p_role = Host, p_joinedAt = 7\<rparr>)]\<rparr>)]) \<and>
   joinRoom identityCase demoStore (JStr (str ''ab23cd'')) (hostOptions (JStr (str ''t2''))) (str ''p1'') 7 =
     (Inl InvalidHostTokenError, demoStore) \<and>
   joinRoom identityCase demoStore (JStr (str ''ab23cd'')) (hostOptions JNull) (str ''p1'') 7 =
     (Inl InvalidHostTokenError, demoStore) \<and>
   joinRoom identityCase demoStore (JStr (str ''ab23cd'')) (noOptions\<lparr>o_hostToken := JStr (str ''t2'')\<rparr>)
       (str ''p1'') 7 =
     (Inr \<lparr>jr_roomId = str ''AB23CD'', jr_participantId = str ''p1'', jr_role = Guest,
           jr_displayName = None, jr_joinedAt = 7\<rparr>,
      [(str ''AB23CD'',
        \<lparr>r_id = str ''AB23CD'', r_createdAt = 5, r_hostToken = str ''t1'',
         r_participants =
           [(str ''p1'', \<lparr>p_participantId = str ''p1'', p_displayName = None,
                          p_role = Guest, p_joinedAt = 7\<rparr>)]\<rparr>)])"
proof -
  have n: "normalizeRoomId identityCase (str ''ab23cd'') = str ''AB23CD''" by code_simp
  have d: "cleanDisplayName (JStr (str '' Alex '')) = Some (str ''Alex'')" by code_simp
  note t = joinRoom_host_token [OF demo_found [of identityCase]]
  have a: "joinRoom identityCase demoStore (JStr (str ''ab23cd'')) (hostOptions (JStr (str ''t1''))) (str ''p1'') 7 =
     (Inr \<lparr>jr_roomId = str ''AB23CD'', jr_participantId = str ''p1'', jr_role = Host,
           jr_displayName = Some (str ''Alex''), jr_joinedAt = 7\<rparr>,
      [(str ''AB23CD'',
        \<lparr>r_id = str ''AB23CD'', r_createdAt = 5, r_hostToken = str ''t1'',
         r_participants =
           [(str ''p1'', \<lparr>p_participantId = str ''p1'', p_displayName = Some (str ''Alex''),
                          p_role = Host, p_joinedAt = 7\<rparr>)]\<rparr>)])"
    using t [of "hostOptions (JStr (str ''t1''))" "str ''p1''" 7]
    by (simp add: hostOptions_def demoRoom_def demoStore_def n d)
  have b: "joinRoom identityCase demoStore (JStr (str ''ab23cd'')) (hostOptions (JStr (str ''t2''))) (str ''p1'') 7 =
     (Inl InvalidHostTokenError, demoStore)"
    using t [of "hostOptions (JStr (str ''t2''))" "str ''p1''" 7]
    by (simp add: hostOptions_def demoRoom_def)
  have c: "joinRoom identityCase demoStore (JStr (str ''ab23cd'')) (hostOptions JNull) (str ''p1'') 7 =
     (Inl InvalidHostTokenError, demoStore)"
    using t [of "hostOptions JNull" "str ''p1''" 7]
    by (simp add: hostOptions_def demoRoom_def)
  have e: "joinRoom identityCase demoStore (JStr (str ''ab23cd'')) (noOptions\<lparr>o_hostToken := JStr (str ''t2'')\<rparr>)
       (str ''p1'') 7 =
     (Inr \<lparr>jr_roomId = str ''AB23CD'', jr_participantId = str ''p1'', jr_role = Guest,
           jr_displayName = None, jr_joinedAt = 7\<rparr>,
      [(str ''AB23CD'',
        \<lparr>r_id = str ''AB23CD'', r_createdAt = 5, r_hostToken = str ''t1'',
         r_participants =
           [(str ''p1'', \<lparr>p_participantId = str ''p1'', p_displayName = None,
                          p_role = Guest, p_joinedAt = 7\<rparr>)]\<rparr>)])"
    using t [of noOptions "str ''p1''" 7]
    by (simp add: noOptions_def demoRoom_def demoStore_def cleanDisplayName_def n)
  from a b c e show ?thesis by blast
qed

text \<open>
  C2, as stated, fails for a room whose token is the empty string, which \<^verbatim>\<open>makeId\<close> can
  give (without \<^verbatim>\<open>crypto\<close> it is \<^verbatim>\<open>Math.random().toString(36).slice(2)\<close>, empty when the
  random number is 0). The store below is what \<^verbatim>\<open>createRoom\<close> makes of such a token; the
  host join with exactly that token is refused, because the code tests the supplied
  token for truthiness first.
\<close>

theorem joinRoom_empty_token_counterexample:
  "emptyTokenStore =
     [(str ''AAAAAA'',
       \<lparr>r_id = str ''AAAAAA'', r_createdAt = 5, r_hostToken = [], r_participants = []\<rparr>)] \<and>
   joinRoom identityCase emptyTokenStore (JStr (str ''AAAAAA'')) (hostOptions (JStr [])) (str ''p1'') 7 =
     (Inl InvalidHostTokenError, emptyTokenStore)"
  by code_simp

text \<open>
  C10. For a room of the ledger and a \<^verbatim>\<open>joinRoom\<close> call whose role is anything but the
  string \<^verbatim>\<open>"host"\<close> (null, undefined, \<^verbatim>\<open>"admin"\<close>, ...): the outcome does not depend on the
  token field, the call succeeds, and both the returned role and the role of the
  participant stored under the new id are \<^verbatim>\<open>guest\<close>.
\<close>

theorem joinRoom_other_role_is_guest:
  assumes "map_of rooms (normalizeRoomId uc raw) = Some room" and "normalizeRoomId uc raw \<noteq> []"
    and "o_role options \<noteq> JStr (str ''host'')"
  shows "(\<forall>token. joinRoom uc rooms (JStr raw) (options\<lparr>o_hostToken := token\<rparr>) participantId joinedAt =
            addParticipant rooms (normalizeRoomId uc raw) room Guest
              (cleanDisplayName (o_displayName options)) participantId joinedAt) \<and>
         (\<exists>res. fst (joinRoom uc rooms (JStr raw) options participantId joinedAt) = Inr res \<and>
            jr_role res = Guest) \<and>
         (\<exists>room' p. map_of (snd (joinRoom uc rooms (JStr raw) options participantId joinedAt))
                (normalizeRoomId uc raw) = Some room' \<and>
            map_of (r_participants room') participantId = Some p \<and> p_role p = Guest)"
proof -
  have a: "joinRoom uc rooms (JStr raw) (options\<lparr>o_hostToken := token\<rparr>) participantId joinedAt =
            addParticipant rooms (normalizeRoomId uc raw) room Guest
              (cleanDisplayName (o_displayName options)) participantId joinedAt" for token
    unfolding joinRoom_found [OF assms(1,2)] using assms(3) by (simp add: requestedRole_def)
  have e: "joinRoom uc rooms (JStr raw) options participantId joinedAt =
            addParticipant rooms (normalizeRoomId uc raw) room Guest
              (cleanDisplayName (o_displayName options)) participantId joinedAt"
    using a [of "o_hostToken options"] by simp
  have b: "\<exists>res. fst (joinRoom uc rooms (JStr raw) options participantId joinedAt) = Inr res \<and>
            jr_role res = Guest"
    unfolding e by (simp add: addParticipant_def)
  have c: "\<exists>room' p. map_of (snd (joinRoom uc rooms (JStr raw) options participantId joinedAt))
                (normalizeRoomId uc raw) = Some room' \<and>
            map_of (r_participants room') participantId = Some p \<and> p_role p = Guest"
    unfolding e by (simp add: addParticipant_def update_conv')
  show ?thesis using a b c by blast
qed

theorem joinRoom_other_role_is_guest_witness:
  "joinRoom identityCase demoStore (JStr (str ''ab23cd'')) adminOptions (str ''p1'') 7 =
     addParticipant demoStore (normalizeRoomId identityCase (str ''ab23cd'')) demoRoom Guest None (str ''p1'') 7 \<and>
   (\<exists>res. fst (joinRoom identityCase demoStore (JStr (str ''ab23cd'')) adminOptions (str ''p1'') 7) = Inr res \<and>
      jr_role res = Guest)"
proof -
  have r: "o_role adminOptions \<noteq> JStr (str ''host'')" by (simp add: adminOptions_def)
  note t = joinRoom_other_role_is_guest [OF demo_found [of identityCase] r, of "(str ''p1'')" 7]
  have a: "joinRoom identityCase demoStore (JStr (str ''ab23cd'')) adminOptions (str ''p1'') 7 =
     addParticipant demoStore (normalizeRoomId identityCase (str ''ab23cd'')) demoRoom Guest None (str ''p1'') 7"
    using conjunct1 [OF t, THEN spec, of "JStr (str ''wrong'')"]
    by (simp add: adminOptions_def cleanDisplayName_def)
  have b: "\<exists>res. fst (joinRoom identityCase demoStore (JStr (str ''ab23cd'')) adminOptions (str ''p1'') 7) = Inr res \<and>
      jr_role res = Guest"
    using t by blast
  from a b show ?thesis by blast
qed

section \<open>Detaching, attaching and the registry\<close>

text \<open>
  What \<^verbatim>\<open>detachFromRoom\<close> and \<^verbatim>\<open>attachToRoom\<close> change, read through \<open>memberAt\<close>: the entry
  of the session in one room and its \<^verbatim>\<open>roomId\<close>, and nothing else.
\<close>

lemma roomIdNamesRoom_iff:
  "roomIdNamesRoom st \<longleftrightarrow>
     (\<forall>(clientId, session) \<in> set (sessions st). \<forall>code. s_roomId (heap st session) = Some code \<longrightarrow>
        memberAt st code (s_id (heap st session)) = Some session)"
  by (auto simp: roomIdNamesRoom_def memberAt_def list_all_iff split: option.splits)

lemma delete_all_Nil: "AList.delete a xs = [] \<Longrightarrow> k \<noteq> a \<Longrightarrow> map_of xs k = None"
  by (metis map_of_delete map_of.simps(1))

lemma detachFromRoom_frame:
  "sessions (fst (detachFromRoom st r)) = sessions st"
  "nextRef (fst (detachFromRoom st r)) = nextRef st"
  "readyStateOf (fst (detachFromRoom st r)) = readyStateOf st"
  by (auto simp: detachFromRoom_def Let_def split: option.splits)

lemma detachFromRoom_heap:
  "heap (fst (detachFromRoom st r)) =
     (if truthyString (s_roomId (heap st r)) then (heap st)(r := (heap st r)\<lparr>s_roomId := None\<rparr>)
      else heap st)"
  by (auto simp: detachFromRoom_def Let_def split: option.splits)

lemma detachFromRoom_memberAt:
  "memberAt (fst (detachFromRoom st r)) code k =
     (if truthyString (s_roomId (heap st r)) \<and> s_roomId (heap st r) = Some code \<and>
         k = s_id (heap st r)
      then None else memberAt st code k)"
proof (cases "s_roomId (heap st r)")
  case None
  then show ?thesis by (simp add: detachFromRoom_def)
next
  case (Some roomId)
  show ?thesis
  proof (cases "roomId = []")
    case True
    then show ?thesis using Some by (simp add: detachFromRoom_def)
  next
    case ne: False
    show ?thesis
    proof (cases "map_of (activeRooms st) roomId")
      case None
      then show ?thesis using Some ne by (auto simp: detachFromRoom_def memberAt_def)
    next
      case (Some room)
      define room' where "room' = AList.delete (s_id (heap st r)) room"
      have a: "activeRooms (fst (detachFromRoom st r)) =
          (if room' = [] then AList.delete roomId (activeRooms st)
           else AList.update roomId room' (activeRooms st))"
        using Some \<open>s_roomId (heap st r) = Some roomId\<close> ne
        by (simp add: detachFromRoom_def Let_def room'_def)
      show ?thesis
      proof (cases "code = roomId")
        case False
        then show ?thesis
          using \<open>s_roomId (heap st r) = Some roomId\<close>
          by (simp add: memberAt_def a update_conv' delete_conv')
      next
        case True
        show ?thesis
        proof (cases "k = s_id (heap st r)")
          case True
          then show ?thesis
            using \<open>code = roomId\<close> \<open>s_roomId (heap st r) = Some roomId\<close> ne
            by (simp add: memberAt_def a update_conv' delete_conv' room'_def)
        next
          case False
          have "map_of room' k = map_of room k" using False by (simp add: room'_def)
          moreover have "room' = [] \<Longrightarrow> map_of room k = None"
            using False delete_all_Nil [of "s_id (heap st r)" room k] by (simp add: room'_def)
          ultimately show ?thesis
            using \<open>code = roomId\<close> False Some
            by (simp add: memberAt_def a update_conv' delete_conv')
        qed
      qed
    qed
  qed
qed

lemma attachToRoom_frame:
  "sessions (attachToRoom uc st r raw) = sessions st"
  "nextRef (attachToRoom uc st r raw) = nextRef st"
  "readyStateOf (attachToRoom uc st r raw) = readyStateOf st"
  "heap (attachToRoom uc st r raw) =
     (heap st)(r := (heap st r)\<lparr>s_roomId := Some (toUpperCase uc (trim raw))\<rparr>)"
  by (simp_all add: attachToRoom_def Let_def)

lemma attachToRoom_memberAt:
  "memberAt (attachToRoom uc st r raw) code k =
     (if code = toUpperCase uc (trim raw) \<and> k = s_id (heap st r) then Some r else memberAt st code k)"
  by (auto simp: attachToRoom_def Let_def memberAt_def update_conv' split: option.splits)

lemma set_update_subset: "set (AList.update k v al) \<subseteq> insert (k, v) (set al)"
  by (induction al) auto

lemma set_delete_subset: "(k', v) \<in> set (AList.delete k al) \<Longrightarrow> (k', v) \<in> set al \<and> k' \<noteq> k"
  by (auto simp: AList.delete_eq)

lemma handleSignalMessage_state: "fst (handleSignalMessage st r message) = st"
  by (simp add: handleSignalMessage_def split: option.splits json.splits)

lemma handleChatMessage_state: "fst (handleChatMessage st r message freshId now) = st"
  by (simp add: handleChatMessage_def Let_def split: option.splits json.splits)

lemma detachFromRoom_idle:
  "\<not> truthyString (s_roomId (heap st r)) \<Longrightarrow> detachFromRoom st r = (st, [])"
  by (cases "s_roomId (heap st r)") (simp_all add: detachFromRoom_def)

lemma handleJoinMessage_state:
  assumes "field message (str ''roomId'') = JStr raw" and "raw \<noteq> []"
  shows "fst (handleJoinMessage uc st r message) =
     attachToRoom uc
       ((fst (detachFromRoom st r))\<lparr>heap := (heap (fst (detachFromRoom st r)))(r :=
           (heap (fst (detachFromRoom st r)) r)
             \<lparr>s_displayName := cleanDisplayName (field message (str ''displayName'')),
              s_role := requestedRole (field message (str ''role''))\<rparr>)\<rparr>)
       r raw"
proof (cases "truthyString (s_roomId (heap st r))")
  case True
  then show ?thesis using assms
    by (simp add: handleJoinMessage_def Let_def split_beta)
next
  case False
  then show ?thesis using assms detachFromRoom_idle [OF False]
    by (simp add: handleJoinMessage_def Let_def split_beta)
qed

lemma handleJoinMessage_idle:
  "(\<forall>raw. field message (str ''roomId'') = JStr raw \<longrightarrow> raw = []) \<Longrightarrow>
     handleJoinMessage uc st r message = (st, [])"
  by (cases "field message (str ''roomId'')") (auto simp: handleJoinMessage_def)

text \<open>The other registered sessions are untouched when one session is detached.\<close>

lemma registered_detach_other:
  assumes "registered st k' r'" and "s_id (heap st r) \<noteq> k'"
  shows "registered (fst (detachFromRoom st r)) k' r'"
proof -
  have ne: "r' \<noteq> r" using assms by (auto simp: registered_def)
  then have h: "heap (fst (detachFromRoom st r)) r' = heap st r'"
    by (simp add: detachFromRoom_heap)
  have m: "memberAt (fst (detachFromRoom st r)) code k' = memberAt st code k'" for code
    using assms(2) by (auto simp: detachFromRoom_memberAt)
  show ?thesis using assms(1) unfolding registered_def h m detachFromRoom_frame by simp
qed

lemma registered_detach_self:
  assumes "registered st k r"
  shows "registered (fst (detachFromRoom st r)) k r"
proof (cases "truthyString (s_roomId (heap st r))")
  case False
  then show ?thesis using assms detachFromRoom_idle [OF False] by simp
next
  case True
  then have "s_roomId (heap (fst (detachFromRoom st r)) r) = None"
    and "s_id (heap (fst (detachFromRoom st r)) r) = s_id (heap st r)"
    by (simp_all add: detachFromRoom_heap)
  then show ?thesis using assms unfolding registered_def detachFromRoom_frame by simp
qed

lemma registered_profile:
  assumes "registered st k' r'"
  shows "registered (st\<lparr>heap := (heap st)(r := (heap st r)\<lparr>s_displayName := d, s_role := ro\<rparr>)\<rparr>) k' r'"
  using assms by (auto simp: registered_def memberAt_def)

lemma registered_attach_other:
  assumes "registered st k' r'" and "s_id (heap st r) \<noteq> k'"
  shows "registered (attachToRoom uc st r raw) k' r'"
proof -
  have ne: "r' \<noteq> r" using assms by (auto simp: registered_def)
  then have h: "heap (attachToRoom uc st r raw) r' = heap st r'"
    by (simp add: attachToRoom_frame)
  have m: "memberAt (attachToRoom uc st r raw) code k' = memberAt st code k'" for code
    using assms(2) by (auto simp: attachToRoom_memberAt)
  show ?thesis
    using assms(1) by (simp add: registered_def h m attachToRoom_frame(2))
qed

lemma registered_attach_self:
  assumes "registered st k r"
  shows "registered (attachToRoom uc st r raw) k r"
proof -
  have k: "s_id (heap st r) = k" and n: "r < nextRef st" using assms by (simp_all add: registered_def)
  have "memberAt (attachToRoom uc st r raw) (toUpperCase uc (trim raw)) k = Some r"
    using k by (simp add: attachToRoom_memberAt)
  then show ?thesis using k n by (simp add: registered_def attachToRoom_frame)
qed

lemma registered_join:
  assumes "registered st k' r'" and "registered st k r" and "k' = k \<longrightarrow> r' = r"
    and "field message (str ''roomId'') = JStr raw" and "raw \<noteq> []"
  shows "registered (fst (handleJoinMessage uc st r message)) k' r'"
proof (cases "k' = k")
  case True
  then have e: "r' = r" using assms(3) by simp
  have "registered (fst (handleJoinMessage uc st r message)) k r"
    unfolding handleJoinMessage_state [OF assms(4,5)]
    by (intro registered_attach_self registered_profile registered_detach_self assms(2))
  then show ?thesis using True e by simp
next
  case False
  have a: "s_id (heap st r) \<noteq> k'" using assms(2) False by (simp add: registered_def)
  have b: "s_id (heap (fst (detachFromRoom st r)) r) \<noteq> k'"
    using a by (simp add: detachFromRoom_heap)
  show ?thesis
    unfolding handleJoinMessage_state [OF assms(4,5)]
    by (intro registered_attach_other registered_profile registered_detach_other assms(1) a)
       (simp add: b)
qed

lemma registryInvariant_join:
  assumes "registryInvariant st" and "map_of (sessions st) k = Some r"
  shows "registryInvariant (fst (handleJoinMessage uc st r message))"
proof (cases "\<exists>raw. field message (str ''roomId'') = JStr raw \<and> raw \<noteq> []")
  case False
  then have "handleJoinMessage uc st r message = (st, [])"
    by (intro handleJoinMessage_idle) auto
  then show ?thesis using assms(1) by simp
next
  case True
  then obtain raw where raw: "field message (str ''roomId'') = JStr raw" "raw \<noteq> []" by blast
  have s: "sessions (fst (handleJoinMessage uc st r message)) = sessions st"
    unfolding handleJoinMessage_state [OF raw] by (simp add: attachToRoom_frame detachFromRoom_frame)
  have reg: "registered st k r" using assms by (simp add: registryInvariant_def)
  show ?thesis
    unfolding registryInvariant_def s
  proof (intro allI impI)
    fix k' r' assume m: "map_of (sessions st) k' = Some r'"
    then have "registered st k' r'" using assms(1) by (simp add: registryInvariant_def)
    moreover have "k' = k \<longrightarrow> r' = r" using m assms(2) by auto
    ultimately show "registered (fst (handleJoinMessage uc st r message)) k' r'"
      using reg raw by (intro registered_join [where k = k]) auto
  qed
qed

lemma registryInvariant_onMessage:
  assumes "registryInvariant st"
  shows "registryInvariant (fst (onMessage uc st clientId data freshId now))"
proof (cases "map_of (sessions st) clientId")
  case None
  then show ?thesis using assms by (simp add: onMessage_def)
next
  case (Some r)
  note j = registryInvariant_join [OF assms Some]
  show ?thesis
    using assms j Some
    by (auto simp: onMessage_def handleSignalMessage_state handleChatMessage_state split: option.splits)
qed

lemma registryInvariant_onOpen:
  assumes "registryInvariant st"
  shows "registryInvariant (fst (onOpen st clientId ws))"
  unfolding registryInvariant_def
proof (intro allI impI)
  fix k r
  let ?st = "fst (onOpen st clientId ws)"
  assume m: "map_of (sessions ?st) k = Some r"
  have s: "sessions ?st = AList.update clientId (nextRef st) (sessions st)"
    and h: "heap ?st = (heap st)(nextRef st :=
                \<lparr>s_id = clientId, s_socket = ws, s_roomId = None, s_displayName = None, s_role = Guest\<rparr>)"
    and n: "nextRef ?st = nextRef st + 1" and a: "activeRooms ?st = activeRooms st"
    by (simp_all add: onOpen_def Let_def)
  have ma: "memberAt ?st = memberAt st" by (simp add: memberAt_def fun_eq_iff a)
  show "registered ?st k r"
  proof (cases "k = clientId")
    case True
    then have "r = nextRef st" using m by (simp add: s update_conv')
    then show ?thesis using True by (simp add: registered_def h n)
  next
    case False
    then have "map_of (sessions st) k = Some r" using m by (simp add: s update_conv')
    then have reg: "registered st k r" using assms by (simp add: registryInvariant_def)
    then have "r \<noteq> nextRef st" by (auto simp: registered_def)
    then show ?thesis using reg by (simp add: registered_def h n ma)
  qed
qed

lemma registryInvariant_onClose:
  assumes "registryInvariant st"
  shows "registryInvariant (fst (onClose st clientId))"
proof (cases "map_of (sessions st) clientId")
  case None
  then show ?thesis using assms by (simp add: onClose_def)
next
  case (Some r)
  let ?st1 = "fst (detachFromRoom st r)"
  have e: "fst (onClose st clientId) = ?st1\<lparr>sessions := AList.delete clientId (sessions st)\<rparr>"
    using Some by (simp add: onClose_def split_beta detachFromRoom_frame)
  have reg: "registered st clientId r" using assms Some by (simp add: registryInvariant_def)
  show ?thesis
    unfolding registryInvariant_def e
  proof (intro allI impI)
    fix k' r'
    assume "map_of (sessions (?st1\<lparr>sessions := AList.delete clientId (sessions st)\<rparr>)) k' = Some r'"
    then have m: "map_of (sessions st) k' = Some r'" and ne: "k' \<noteq> clientId"
      by (auto simp: delete_conv' split: if_splits)
    have "registered st k' r'" using assms m by (simp add: registryInvariant_def)
    moreover have "s_id (heap st r) \<noteq> k'" using reg ne by (simp add: registered_def)
    ultimately have "registered ?st1 k' r'" by (rule registered_detach_other)
    then show "registered (?st1\<lparr>sessions := AList.delete clientId (sessions st)\<rparr>) k' r'"
      by (simp add: registered_def memberAt_def)
  qed
qed

lemma onError_onClose: "onError st clientId = onClose st clientId"
  by (simp add: onError_def onClose_def)

lemma registryInvariant_step:
  assumes "registryInvariant st"
  shows "registryInvariant (fst (step uc st e))"
proof (cases e)
  case (Transport ws state)
  then show ?thesis using assms by (simp add: registryInvariant_def registered_def memberAt_def)
qed (simp_all add: assms registryInvariant_onOpen registryInvariant_onMessage
       registryInvariant_onClose onError_onClose)

lemma registryInvariant_reachable: "reachable uc st \<Longrightarrow> registryInvariant st"
proof (induction rule: reachable.induct)
  case reachable_startUp
  show ?case by (simp add: registryInvariant_def startUp_def)
next
  case (reachable_step st e)
  then show ?case by (simp add: registryInvariant_step)
qed

lemma sessions_distinct_step:
  "distinct (map fst (sessions st)) \<Longrightarrow> distinct (map fst (sessions (fst (step uc st e))))"
proof (cases e)
  case (Message clientId data freshId now)
  assume d: "distinct (map fst (sessions st))"
  have "sessions (fst (onMessage uc st clientId data freshId now)) = sessions st"
  proof (cases "\<exists>raw. field (the data) (str ''roomId'') = JStr raw \<and> raw \<noteq> []")
    case True
    then obtain raw where raw: "field (the data) (str ''roomId'') = JStr raw" "raw \<noteq> []" by blast
    show ?thesis
      using handleJoinMessage_state [OF raw]
      by (auto simp: onMessage_def handleSignalMessage_state handleChatMessage_state
            attachToRoom_frame detachFromRoom_frame split: option.splits)
  next
    case False
    then have "handleJoinMessage uc st r (the data) = (st, [])" for r
      by (intro handleJoinMessage_idle) auto
    then show ?thesis
      by (auto simp: onMessage_def handleSignalMessage_state handleChatMessage_state
            split: option.splits)
  qed
  then show ?thesis using d Message by simp
qed (auto simp: onOpen_def onClose_def onError_def Let_def split_beta detachFromRoom_frame
       distinct_update distinct_delete split: option.splits)

lemma sessions_distinct_reachable: "reachable uc st \<Longrightarrow> distinct (map fst (sessions st))"
proof (induction rule: reachable.induct)
  case reachable_startUp
  show ?case by (simp add: startUp_def)
next
  case (reachable_step st e)
  from reachable_step.IH show ?case by (rule sessions_distinct_step)
qed

text \<open>
  The first part of the membership invariant holds in every reachable state: the room
  that a registered session names exists and holds that session under its id.
\<close>

theorem reachable_roomIdNamesRoom: "reachable uc st \<Longrightarrow> roomIdNamesRoom st"
proof -
  assume r: "reachable uc st"
  note inv = registryInvariant_reachable [OF r] and d = sessions_distinct_reachable [OF r]
  show ?thesis
    unfolding roomIdNamesRoom_iff
  proof (intro ballI, clarify)
    fix k s code
    assume "(k, s) \<in> set (sessions st)" and c: "s_roomId (heap st s) = Some code"
    then have "map_of (sessions st) k = Some s" using d by simp
    then have "registered st k s" using inv by (simp add: registryInvariant_def)
    then show "memberAt st code (s_id (heap st s)) = Some s" using c by (simp add: registered_def)
  qed
qed

lemma reachable_run: "reachable uc st \<Longrightarrow> reachable uc (fst (run uc st es))"
proof (induction es arbitrary: st)
  case Nil
  then show ?case by simp
next
  case (Cons e es)
  have "reachable uc (fst (step uc st e))" using Cons.prems by (rule reachable_step)
  then have "reachable uc (fst (run uc (fst (step uc st e)) es))" by (rule Cons.IH)
  then show ?case by (simp add: split_beta)
qed

lemma registered_member:
  assumes "reachable uc st" and "map_of (sessions st) clientId = Some session"
    and "s_roomId (heap st session) = Some roomId" and "map_of (activeRooms st) roomId = Some room"
  shows "map_of room clientId = Some session \<and> s_id (heap st session) = clientId"
proof -
  have "registered st clientId session"
    using registryInvariant_reachable [OF assms(1)] assms(2) by (simp add: registryInvariant_def)
  then show ?thesis using assms(3,4) by (simp add: registered_def memberAt_def)
qed

section \<open>The scenario of the specification\<close>

text \<open>
  What the model sends in that scenario: the welcome and the empty room-state to X,
  the welcome and the room-state with X to Y, user-joined and then user-left to X. At
  the end X alone is registered and in the room.
\<close>

lemma scenario_events:
  "snd (run uc startUp scenarioEvents) =
     [(101, WelcomeEvent (str ''X'')),
      (101, RoomStateEvent []),
      (102, WelcomeEvent (str ''Y'')),
      (102, RoomStateEvent [\<lparr>ps_clientId = str ''X'', ps_displayName = Some (str ''Alex''), ps_role = Host\<rparr>]),
      (101, UserJoinedEvent \<lparr>ps_clientId = str ''Y'', ps_displayName = Some (str ''Sam''), ps_role = Guest\<rparr>),
      (101, UserLeftEvent (str ''Y''))]"
  "activeRooms (fst (run uc startUp scenarioEvents)) = [(str ''AB23CD'', [(str ''X'', 0)])]"
  "sessions (fst (run uc startUp scenarioEvents)) = [(str ''X'', 0)]"
  by code_simp+

section \<open>Chat\<close>

lemma lobby_facts:
  "heap (lobby uc) 0 = \<lparr>s_id = str ''x'', s_socket = 101, s_roomId = Some (str ''LOBBY''), s_displayName = None, s_role = Guest\<rparr>"
  "heap (lobby uc) (Suc 0) = \<lparr>s_id = str ''y'', s_socket = 102, s_roomId = Some (str ''LOBBY''), s_displayName = None, s_role = Guest\<rparr>"
  "heap (lobby uc) 2 = \<lparr>s_id = str ''z'', s_socket = 103, s_roomId = None, s_displayName = None, s_role = Guest\<rparr>"
  "activeRooms (lobby uc) = [(str ''LOBBY'', [(str ''x'', 0), (str ''y'', 1)])]"
  "sessions (lobby uc) = [(str ''x'', 0), (str ''y'', 1), (str ''z'', 2)]"
  "readyStateOf (lobby uc) ws = OPEN"
  by code_simp+

lemma lobby_reachable: "reachable uc (lobby uc)"
  unfolding lobby_def by (intro reachable_run reachable_startUp)

text \<open>
  C4 (as amended). A session whose \<^verbatim>\<open>roomId\<close> is a non-empty code of a room of the
  directory sends a chat message with a string text: \<^verbatim>\<open>sendJson\<close> is called once for
  each member of that room, in the room's order, and for nobody else, with one chat
  event; the state is unchanged. The event's \<^verbatim>\<open>messageId\<close> is the supplied one when
  that is a non-empty string, and the fresh id otherwise. In a reachable state a
  registered sender is itself a member of that room, under its id. A chat message of a
  session whose \<^verbatim>\<open>roomId\<close> is null is ignored.
\<close>

theorem handleChatMessage_broadcast:
  "(s_roomId (heap st session) = Some roomId \<and> roomId \<noteq> [] \<and>
    map_of (activeRooms st) roomId = Some room \<and> field message (str ''text'') = JStr text \<longrightarrow>
      (\<exists>messageId.
         handleChatMessage st session message freshId now =
           (st, concat (map (\<lambda>(clientId, member).
                              sendJson st (s_socket (heap st member))
                                (ChatEvent (s_id (heap st session)) text messageId now))
                            room)) \<and>
         (\<forall>supplied. field message (str ''messageId'') = JStr supplied \<and> supplied \<noteq> [] \<longrightarrow>
            messageId = supplied) \<and>
         ((\<forall>supplied. field message (str ''messageId'') = JStr supplied \<longrightarrow> supplied = []) \<longrightarrow>
            messageId = freshId)) \<and>
      (reachable uc st \<and> map_of (sessions st) clientId = Some session \<longrightarrow>
         map_of room clientId = Some session \<and> s_id (heap st session) = clientId)) \<and>
   (s_roomId (heap st session) = None \<longrightarrow>
      handleChatMessage st session message freshId now = (st, []))"
proof (intro conjI impI)
  assume h: "s_roomId (heap st session) = Some roomId \<and> roomId \<noteq> [] \<and>
    map_of (activeRooms st) roomId = Some room \<and> field message (str ''text'') = JStr text"
  then show "\<exists>messageId.
         handleChatMessage st session message freshId now =
           (st, concat (map (\<lambda>(clientId, member).
                              sendJson st (s_socket (heap st member))
                                (ChatEvent (s_id (heap st session)) text messageId now))
                            room)) \<and>
         (\<forall>supplied. field message (str ''messageId'') = JStr supplied \<and> supplied \<noteq> [] \<longrightarrow>
            messageId = supplied) \<and>
         ((\<forall>supplied. field message (str ''messageId'') = JStr supplied \<longrightarrow> supplied = []) \<longrightarrow>
            messageId = freshId)"
    by (auto simp: handleChatMessage_def broadcastToRoom_def Let_def split: json.splits)
  assume "reachable uc st \<and> map_of (sessions st) clientId = Some session"
  then have m: "map_of room clientId = Some session \<and> s_id (heap st session) = clientId"
    using h registered_member [of uc st clientId session roomId room] by blast
  from m show "map_of room clientId = Some session" by blast
  from m show "s_id (heap st session) = clientId" by blast
next
  assume "s_roomId (heap st session) = None"
  then show "handleChatMessage st session message freshId now = (st, [])"
    by (simp add: handleChatMessage_def)
qed

theorem handleChatMessage_broadcast_witness:
  "handleChatMessage (lobby identityCase) 0 (JObj [(str ''type'', JStr (str ''chat'')), (str ''text'', JStr (str ''hi'')), (str ''messageId'', JStr (str ''m1''))]) (str ''f3'') 12 =
     (lobby identityCase, [(101, ChatEvent (str ''x'') (str ''hi'') (str ''m1'') 12), (102, ChatEvent (str ''x'') (str ''hi'') (str ''m1'') 12)]) \<and>
   reachable identityCase (lobby identityCase) \<and> map_of (sessions (lobby identityCase)) (str ''x'') = Some 0 \<and>
   map_of [(str ''x'', 0), (str ''y'', 1 :: nat)] (str ''x'') = Some (0 :: nat) \<and>
   handleChatMessage (lobby identityCase) 2 (JObj [(str ''type'', JStr (str ''chat'')), (str ''text'', JStr (str ''hi'')), (str ''messageId'', JStr (str ''m1''))]) (str ''f3'') 12 =
     (lobby identityCase, [])"
proof -
  let ?m = "JObj [(str ''type'', JStr (str ''chat'')), (str ''text'', JStr (str ''hi'')), (str ''messageId'', JStr (str ''m1''))]"
  have h: "s_roomId (heap (lobby identityCase) 0) = Some (str ''LOBBY'') \<and> (str ''LOBBY'') \<noteq> [] \<and>
      map_of (activeRooms (lobby identityCase)) (str ''LOBBY'') = Some [(str ''x'', 0), (str ''y'', 1)] \<and>
      field ?m (str ''text'') = JStr (str ''hi'')"
    by (simp add: lobby_facts)
  note t = handleChatMessage_broadcast [of "lobby identityCase" 0 "(str ''LOBBY'')" "[(str ''x'', 0), (str ''y'', 1)]" ?m "(str ''hi'')"
      "(str ''f3'')" 12 identityCase "(str ''x'')"]
  from t h
  have "\<exists>messageId.
         handleChatMessage (lobby identityCase) 0 ?m (str ''f3'') 12 =
           (lobby identityCase, concat (map (\<lambda>(clientId, member).
                              sendJson (lobby identityCase) (s_socket (heap (lobby identityCase) member))
                                (ChatEvent (s_id (heap (lobby identityCase) 0)) (str ''hi'') messageId 12))
                            [(str ''x'', 0), (str ''y'', 1)])) \<and>
         (\<forall>supplied. field ?m (str ''messageId'') = JStr supplied \<and> supplied \<noteq> [] \<longrightarrow>
            messageId = supplied) \<and>
         ((\<forall>supplied. field ?m (str ''messageId'') = JStr supplied \<longrightarrow> supplied = []) \<longrightarrow>
            messageId = (str ''f3''))"
    by blast
  then obtain messageId where
    e: "handleChatMessage (lobby identityCase) 0 ?m (str ''f3'') 12 =
           (lobby identityCase, concat (map (\<lambda>(clientId, member).
                              sendJson (lobby identityCase) (s_socket (heap (lobby identityCase) member))
                                (ChatEvent (s_id (heap (lobby identityCase) 0)) (str ''hi'') messageId 12))
                            [(str ''x'', 0), (str ''y'', 1)]))"
    and m: "\<forall>supplied. field ?m (str ''messageId'') = JStr supplied \<and> supplied \<noteq> [] \<longrightarrow> messageId = supplied"
    by blast
  have "messageId = str ''m1''" using m by simp
  then have a: "handleChatMessage (lobby identityCase) 0 ?m (str ''f3'') 12 =
     (lobby identityCase, [(101, ChatEvent (str ''x'') (str ''hi'') (str ''m1'') 12), (102, ChatEvent (str ''x'') (str ''hi'') (str ''m1'') 12)])"
    using e by (simp add: lobby_facts sendJson_def)
  have s: "map_of (sessions (lobby identityCase)) (str ''x'') = Some 0" by (simp add: lobby_facts)
  from t h lobby_reachable [of identityCase] s
  have c: "map_of [(str ''x'', 0), (str ''y'', 1 :: nat)] (str ''x'') = Some (0 :: nat)" by blast
  have "s_roomId (heap (lobby identityCase) 2) = None" by (simp add: lobby_facts)
  then have b: "handleChatMessage (lobby identityCase) 2 ?m (str ''f3'') 12 = (lobby identityCase, [])"
    using handleChatMessage_broadcast [of "lobby identityCase" 2 "(str ''LOBBY'')" "[]" ?m "(str ''hi'')" "(str ''f3'')" 12] by blast
  from a lobby_reachable [of identityCase] s c b show ?thesis by blast
qed

text \<open>
  C4, as stated, fails on a supplied \<^verbatim>\<open>messageId\<close> that is the empty string: it is
  present and textual, and the event carries the fresh id \<^verbatim>\<open>f3\<close> instead.
\<close>

theorem chat_empty_messageId_counterexample:
  "snd (onMessage identityCase (lobby identityCase) (str ''x'') (chatFrame (JStr (str ''hi'')) (JStr [])) (str ''f3'') 12) =
     [(101, ChatEvent (str ''x'') (str ''hi'') (str ''f3'') 12), (102, ChatEvent (str ''x'') (str ''hi'') (str ''f3'') 12)]"
  by code_simp

section \<open>Frames that are ignored\<close>

text \<open>
  C9. \<^verbatim>\<open>onMessage\<close> returns the state unchanged and sends nothing when the connection
  has no session, when the frame does not parse, when it parses to something that is
  not an object (null, a boolean, a number, a string), and when its \<^verbatim>\<open>type\<close> is none of
  \<^verbatim>\<open>join\<close>, \<^verbatim>\<open>signal\<close>, \<^verbatim>\<open>chat\<close>. The same holds for each handler when its own guard
  fails: a join without a non-empty string \<^verbatim>\<open>roomId\<close>; a signal from a session whose
  \<^verbatim>\<open>roomId\<close> is falsy, or without a truthy target, or to a target that is not a member
  of the sender's room; a chat from a session whose \<^verbatim>\<open>roomId\<close> is falsy, or without a
  string text. The handlers are total functions with no error result, as the code has
  no \<^verbatim>\<open>throw\<close> on these paths and \<^verbatim>\<open>sendJson\<close> catches what \<^verbatim>\<open>socket.send\<close> throws.
\<close>

theorem onMessage_ignores:
  "(map_of (sessions st) clientId = None \<or> data = None \<or>
    (\<exists>payload. data = Some payload \<and> (\<not> truthy payload \<or> \<not> isObject payload)) \<or>
    (\<exists>payload. data = Some payload \<and> field payload (str ''type'') \<noteq> JStr (str ''join'') \<and>
       field payload (str ''type'') \<noteq> JStr (str ''signal'') \<and> field payload (str ''type'') \<noteq> JStr (str ''chat'')) \<longrightarrow>
      onMessage uc st clientId data freshId now = (st, [])) \<and>
   (\<not> truthy (field message (str ''roomId'')) \<or> \<not> isString (field message (str ''roomId'')) \<longrightarrow>
      handleJoinMessage uc st session message = (st, [])) \<and>
   (\<not> truthyString (s_roomId (heap st session)) \<or> \<not> truthy (field message (str ''targetClientId'')) \<or>
    (\<forall>roomId room target. s_roomId (heap st session) = Some roomId \<and>
       map_of (activeRooms st) roomId = Some room \<and>
       field message (str ''targetClientId'') = JStr target \<longrightarrow> map_of room target = None) \<longrightarrow>
      handleSignalMessage st session message = (st, [])) \<and>
   (\<not> truthyString (s_roomId (heap st session)) \<or> \<not> isString (field message (str ''text'')) \<longrightarrow>
      handleChatMessage st session message freshId now = (st, []))"
proof (intro conjI impI)
  assume "map_of (sessions st) clientId = None \<or> data = None \<or>
    (\<exists>payload. data = Some payload \<and> (\<not> truthy payload \<or> \<not> isObject payload)) \<or>
    (\<exists>payload. data = Some payload \<and> field payload (str ''type'') \<noteq> JStr (str ''join'') \<and>
       field payload (str ''type'') \<noteq> JStr (str ''signal'') \<and> field payload (str ''type'') \<noteq> JStr (str ''chat''))"
  then show "onMessage uc st clientId data freshId now = (st, [])"
    by (auto simp: onMessage_def split: option.splits)
next
  assume "\<not> truthy (field message (str ''roomId'')) \<or> \<not> isString (field message (str ''roomId''))"
  then show "handleJoinMessage uc st session message = (st, [])"
    by (cases "field message (str ''roomId'')") (auto simp: handleJoinMessage_def)
next
  assume "\<not> truthyString (s_roomId (heap st session)) \<or> \<not> truthy (field message (str ''targetClientId'')) \<or>
    (\<forall>roomId room target. s_roomId (heap st session) = Some roomId \<and>
       map_of (activeRooms st) roomId = Some room \<and>
       field message (str ''targetClientId'') = JStr target \<longrightarrow> map_of room target = None)"
  then show "handleSignalMessage st session message = (st, [])"
    by (cases "s_roomId (heap st session)"; cases "field message (str ''targetClientId'')")
       (auto simp: handleSignalMessage_def split: option.splits)
next
  assume "\<not> truthyString (s_roomId (heap st session)) \<or> \<not> isString (field message (str ''text''))"
  then show "handleChatMessage st session message freshId now = (st, [])"
    by (cases "s_roomId (heap st session)"; cases "field message (str ''text'')")
       (auto simp: handleChatMessage_def)
qed

theorem onMessage_ignores_witness:
  "onMessage identityCase (lobby identityCase) (str ''x'') None (str ''f3'') 12 = (lobby identityCase, []) \<and>
   onMessage identityCase (lobby identityCase) (str ''x'') (Some (JStr (str ''join''))) (str ''f3'') 12 = (lobby identityCase, []) \<and>
   onMessage identityCase (lobby identityCase) (str ''x'') (Some (JObj [(str ''type'', JStr (str ''leave''))])) (str ''f3'') 12 = (lobby identityCase, []) \<and>
   handleJoinMessage identityCase (lobby identityCase) 0 (JObj [(str ''type'', JStr (str ''join'')), (str ''roomId'', JNum 7)]) = (lobby identityCase, []) \<and>
   handleSignalMessage (lobby identityCase) 0 (JObj [(str ''type'', JStr (str ''signal'')), (str ''targetClientId'', JStr (str ''z''))]) = (lobby identityCase, []) \<and>
   handleChatMessage (lobby identityCase) 2 (JObj [(str ''type'', JStr (str ''chat'')), (str ''text'', JStr (str ''hi''))]) (str ''f3'') 12 = (lobby identityCase, [])"
proof -
  have a: "onMessage identityCase (lobby identityCase) (str ''x'') None (str ''f3'') 12 = (lobby identityCase, [])"
    using onMessage_ignores [where uc = identityCase and st = "lobby identityCase" and clientId = "(str ''x'')" and data = None
        and freshId = "(str ''f3'')" and now = 12]
    by simp
  have b: "onMessage identityCase (lobby identityCase) (str ''x'') (Some (JStr (str ''join''))) (str ''f3'') 12 = (lobby identityCase, [])"
    using onMessage_ignores [where uc = identityCase and st = "lobby identityCase" and clientId = "(str ''x'')" and data = "Some (JStr (str ''join''))"
        and freshId = "(str ''f3'')" and now = 12]
    by simp
  have c: "onMessage identityCase (lobby identityCase) (str ''x'') (Some (JObj [(str ''type'', JStr (str ''leave''))])) (str ''f3'') 12 = (lobby identityCase, [])"
    using onMessage_ignores [where uc = identityCase and st = "lobby identityCase" and clientId = "(str ''x'')"
        and data = "Some (JObj [(str ''type'', JStr (str ''leave''))])" and freshId = "(str ''f3'')" and now = 12]
    by simp
  have d: "handleJoinMessage identityCase (lobby identityCase) 0 (JObj [(str ''type'', JStr (str ''join'')), (str ''roomId'', JNum 7)]) = (lobby identityCase, [])"
    using onMessage_ignores [where st = "lobby identityCase" and session = 0
        and message = "JObj [(str ''type'', JStr (str ''join'')), (str ''roomId'', JNum 7)]"]
    by simp
  have e: "handleSignalMessage (lobby identityCase) 0 (JObj [(str ''type'', JStr (str ''signal'')), (str ''targetClientId'', JStr (str ''z''))]) = (lobby identityCase, [])"
    using onMessage_ignores [where st = "lobby identityCase" and session = 0
        and message = "JObj [(str ''type'', JStr (str ''signal'')), (str ''targetClientId'', JStr (str ''z''))]"]
    by (simp add: lobby_facts)
  have f: "handleChatMessage (lobby identityCase) 2 (JObj [(str ''type'', JStr (str ''chat'')), (str ''text'', JStr (str ''hi''))]) (str ''f3'') 12 = (lobby identityCase, [])"
    using onMessage_ignores [where st = "lobby identityCase" and session = 2 and freshId = "(str ''f3'')" and now = 12
        and message = "JObj [(str ''type'', JStr (str ''chat'')), (str ''text'', JStr (str ''hi''))]"]
    by (simp add: lobby_facts)
  from a b c d e f show ?thesis by blast
qed

section \<open>Room codes that normalise to the empty string\<close>

text \<open>
  \<^verbatim>\<open>handleJoinMessage\<close> accepts every non-empty string as a room code, also one of
  white space only, which \<^verbatim>\<open>attachToRoom\<close> normalises to the empty string. The session
  is then a member of the directory room \<^verbatim>\<open>""\<close> and its \<^verbatim>\<open>roomId\<close> is \<^verbatim>\<open>""\<close>, which every
  later test \<^verbatim>\<open>!session.roomId\<close> takes for "not in a room". (\<^verbatim>\<open>joinRoom\<close> of the ledger
  rejects such a code: it tests \<^verbatim>\<open>roomIdRaw.trim().length === 0\<close>.)
\<close>

text \<open>
  C1 on that input. A session joins \<^verbatim>\<open>" "\<close> and then \<^verbatim>\<open>"den"\<close>: it is not detached
  first and ends as a member of two rooms. A session joins \<^verbatim>\<open>" "\<close> and its connection
  closes: it leaves the registry and stays a member of the room.
\<close>

theorem blank_room_code_breaks_membership:
  "activeRooms (fst (run uc startUp
      [Open (str ''x'') 101, Message (str ''x'') (joinFrame (str '' '')) (str ''f1'') 10,
       Message (str ''x'') (joinFrame (str ''den'')) (str ''f2'') 11])) =
     [([], [(str ''x'', 0)]), (str ''DEN'', [(str ''x'', 0)])] \<and>
   \<not> inOneRoomAtMost (fst (run uc startUp
      [Open (str ''x'') 101, Message (str ''x'') (joinFrame (str '' '')) (str ''f1'') 10,
       Message (str ''x'') (joinFrame (str ''den'')) (str ''f2'') 11])) \<and>
   sessions (fst (run uc startUp
      [Open (str ''x'') 101, Message (str ''x'') (joinFrame (str '' '')) (str ''f1'') 10, Close (str ''x'')])) = [] \<and>
   activeRooms (fst (run uc startUp
      [Open (str ''x'') 101, Message (str ''x'') (joinFrame (str '' '')) (str ''f1'') 10, Close (str ''x'')])) =
     [([], [(str ''x'', 0)])] \<and>
   \<not> membersRegistered (fst (run uc startUp
      [Open (str ''x'') 101, Message (str ''x'') (joinFrame (str '' '')) (str ''f1'') 10, Close (str ''x'')]))"
  by code_simp

text \<open>The directory's association lists never hold a key twice.\<close>

lemma regular_reachable: "regular uc st \<Longrightarrow> reachable uc st"
  by (induction rule: regular.induct) (auto intro: reachable.intros)

lemma roomsDistinct_detach:
  assumes "roomsDistinct st"
  shows "roomsDistinct (fst (detachFromRoom st r))"
proof (cases "s_roomId (heap st r)")
  case None
  then show ?thesis using assms by (simp add: detachFromRoom_def)
next
  case (Some roomId)
  show ?thesis
  proof (cases "roomId = [] \<or> map_of (activeRooms st) roomId = None")
    case True
    then show ?thesis using assms Some by (auto simp: detachFromRoom_def roomsDistinct_def)
  next
    case False
    then obtain room where room: "map_of (activeRooms st) roomId = Some room" and ne: "roomId \<noteq> []"
      by auto
    define room' where "room' = AList.delete (s_id (heap st r)) room"
    have a: "activeRooms (fst (detachFromRoom st r)) =
          (if room' = [] then AList.delete roomId (activeRooms st)
           else AList.update roomId room' (activeRooms st))"
      using Some room ne by (simp add: detachFromRoom_def Let_def room'_def)
    have "(roomId, room) \<in> set (activeRooms st)" using room by (rule map_of_SomeD)
    then have "distinct (map fst room)" using assms by (auto simp: roomsDistinct_def)
    then have d: "distinct (map fst room')" by (simp add: room'_def distinct_delete)
    show ?thesis
      unfolding roomsDistinct_def a
      using assms d set_update_subset [of roomId room' "activeRooms st"]
      by (auto simp: roomsDistinct_def distinct_update distinct_delete dest: set_delete_subset)
  qed
qed

lemma roomsDistinct_attach:
  assumes "roomsDistinct st"
  shows "roomsDistinct (attachToRoom uc st r raw)"
proof -
  define N where "N = toUpperCase uc (trim raw)"
  define room where "room = (case map_of (activeRooms st) N of None \<Rightarrow> [] | Some x \<Rightarrow> x)"
  have a: "activeRooms (attachToRoom uc st r raw) =
      AList.update N (AList.update (s_id (heap st r)) r room) (activeRooms st)"
    by (simp add: attachToRoom_def Let_def N_def room_def)
  have "distinct (map fst room)"
  proof (cases "map_of (activeRooms st) N")
    case None then show ?thesis by (simp add: room_def)
  next
    case (Some x)
    then have "(N, x) \<in> set (activeRooms st)" by (rule map_of_SomeD)
    then show ?thesis using assms Some by (auto simp: roomsDistinct_def room_def)
  qed
  then have d: "distinct (map fst (AList.update (s_id (heap st r)) r room))"
    by (rule distinct_update)
  show ?thesis
    unfolding roomsDistinct_def a
    using assms d set_update_subset [of N "AList.update (s_id (heap st r)) r room" "activeRooms st"]
    by (auto simp: roomsDistinct_def distinct_update)
qed

lemma roomsDistinct_step:
  assumes "roomsDistinct st"
  shows "roomsDistinct (fst (step uc st e))"
proof (cases e)
  case (Open clientId ws)
  then show ?thesis using assms by (simp add: onOpen_def Let_def roomsDistinct_def)
next
  case (Message clientId data freshId now)
  show ?thesis
  proof (cases "map_of (sessions st) clientId")
    case None
    then show ?thesis using assms Message by (simp add: onMessage_def)
  next
    case (Some r)
    have j: "roomsDistinct (fst (handleJoinMessage uc st r message))" for message
    proof (cases "\<exists>raw. field message (str ''roomId'') = JStr raw \<and> raw \<noteq> []")
      case True
      then obtain raw where raw: "field message (str ''roomId'') = JStr raw" "raw \<noteq> []" by blast
      have "roomsDistinct ((fst (detachFromRoom st r))\<lparr>heap := h\<rparr>)" for h
        using roomsDistinct_detach [OF assms, of r] by (simp add: roomsDistinct_def)
      then show ?thesis
        unfolding handleJoinMessage_state [OF raw] by (intro roomsDistinct_attach)
    next
      case False
      then have "handleJoinMessage uc st r message = (st, [])"
        by (intro handleJoinMessage_idle) auto
      then show ?thesis using assms by simp
    qed
    show ?thesis
      using assms j Some Message
      by (auto simp: onMessage_def handleSignalMessage_state handleChatMessage_state
            split: option.splits)
  qed
next
  case (Close clientId)
  have "roomsDistinct ((fst (detachFromRoom st r))\<lparr>sessions := s\<rparr>)" for r s
    using roomsDistinct_detach [OF assms, of r] by (simp add: roomsDistinct_def)
  then show ?thesis
    using assms Close by (auto simp: onClose_def split_beta split: option.splits)
next
  case (Error clientId)
  have "roomsDistinct ((fst (detachFromRoom st r))\<lparr>sessions := s\<rparr>)" for r s
    using roomsDistinct_detach [OF assms, of r] by (simp add: roomsDistinct_def)
  then show ?thesis
    using assms Error by (auto simp: onError_def split_beta split: option.splits)
next
  case (Transport ws state)
  then show ?thesis using assms by (simp add: roomsDistinct_def)
qed

lemma roomsDistinct_reachable: "reachable uc st \<Longrightarrow> roomsDistinct st"
proof (induction rule: reachable.induct)
  case reachable_startUp
  show ?case by (simp add: roomsDistinct_def startUp_def)
next
  case (reachable_step st e)
  from reachable_step.IH show ?case by (rule roomsDistinct_step)
qed

lemma membersKnown_detach:
  assumes mk: "membersKnown st" and inv: "registryInvariant st"
    and m0: "map_of (sessions st) k0 = Some r0"
  shows "\<forall>code k r. memberAt (fst (detachFromRoom st r0)) code k = Some r \<longrightarrow>
           k \<noteq> k0 \<and> r \<noteq> r0 \<and> map_of (sessions st) k = Some r \<and>
           s_roomId (heap (fst (detachFromRoom st r0)) r) = Some code \<and> code \<noteq> []"
proof (intro allI impI)
  fix code k r
  assume a: "memberAt (fst (detachFromRoom st r0)) code k = Some r"
  have reg: "registered st k0 r0" using inv m0 by (simp add: registryInvariant_def)
  then have id0: "s_id (heap st r0) = k0" by (simp add: registered_def)
  from a have old: "memberAt st code k = Some r"
    and no: "\<not> (truthyString (s_roomId (heap st r0)) \<and> s_roomId (heap st r0) = Some code \<and> k = k0)"
    by (auto simp: detachFromRoom_memberAt id0 split: if_splits)
  from mk old have s: "map_of (sessions st) k = Some r" and c: "s_roomId (heap st r) = Some code"
    and ne: "code \<noteq> []"
    by (auto simp: membersKnown_def)
  have k: "k \<noteq> k0"
  proof
    assume "k = k0"
    then have "r = r0" using s m0 by simp
    then show False using no c ne \<open>k = k0\<close> by simp
  qed
  have "registered st k r" using inv s by (simp add: registryInvariant_def)
  then have r: "r \<noteq> r0" using k id0 by (auto simp: registered_def)
  then have "heap (fst (detachFromRoom st r0)) r = heap st r" by (simp add: detachFromRoom_heap)
  then show "k \<noteq> k0 \<and> r \<noteq> r0 \<and> map_of (sessions st) k = Some r \<and>
           s_roomId (heap (fst (detachFromRoom st r0)) r) = Some code \<and> code \<noteq> []"
    using k r s c ne by simp
qed

lemma membersKnown_onClose:
  assumes mk: "membersKnown st" and inv: "registryInvariant st"
  shows "membersKnown (fst (onClose st clientId))"
proof (cases "map_of (sessions st) clientId")
  case None
  then show ?thesis using mk by (simp add: onClose_def)
next
  case (Some r0)
  let ?st1 = "fst (detachFromRoom st r0)"
  have e: "fst (onClose st clientId) = ?st1\<lparr>sessions := AList.delete clientId (sessions st)\<rparr>"
    using Some by (simp add: onClose_def split_beta detachFromRoom_frame)
  note d = membersKnown_detach [OF mk inv Some]
  show ?thesis
    unfolding membersKnown_def e
  proof (intro allI impI)
    fix code k r
    assume "memberAt (?st1\<lparr>sessions := AList.delete clientId (sessions st)\<rparr>) code k = Some r"
    then have "memberAt ?st1 code k = Some r" by (simp add: memberAt_def)
    then have "k \<noteq> clientId \<and> r \<noteq> r0 \<and> map_of (sessions st) k = Some r \<and>
           s_roomId (heap ?st1 r) = Some code \<and> code \<noteq> []"
      using d by blast
    then show "map_of (sessions (?st1\<lparr>sessions := AList.delete clientId (sessions st)\<rparr>)) k = Some r \<and>
        s_roomId (heap (?st1\<lparr>sessions := AList.delete clientId (sessions st)\<rparr>) r) = Some code \<and>
        code \<noteq> []"
      by (simp add: delete_conv')
  qed
qed

lemma membersKnown_join:
  assumes mk: "membersKnown st" and inv: "registryInvariant st"
    and m0: "map_of (sessions st) k0 = Some r0"
    and raw: "field message (str ''roomId'') = JStr raw" "raw \<noteq> []" "toUpperCase uc (trim raw) \<noteq> []"
  shows "membersKnown (fst (handleJoinMessage uc st r0 message))"
proof -
  let ?st1 = "fst (detachFromRoom st r0)"
  define st2 where "st2 = ?st1\<lparr>heap := (heap ?st1)(r0 := (heap ?st1 r0)
             \<lparr>s_displayName := cleanDisplayName (field message (str ''displayName'')),
              s_role := requestedRole (field message (str ''role''))\<rparr>)\<rparr>"
  have e: "fst (handleJoinMessage uc st r0 message) = attachToRoom uc st2 r0 raw"
    unfolding handleJoinMessage_state [OF raw(1,2)] st2_def by simp
  have reg: "registered st k0 r0" using inv m0 by (simp add: registryInvariant_def)
  then have id0: "s_id (heap st r0) = k0" by (simp add: registered_def)
  have id2: "s_id (heap st2 r0) = k0" by (simp add: st2_def detachFromRoom_heap id0)
  have m2: "memberAt st2 = memberAt ?st1" by (simp add: st2_def memberAt_def fun_eq_iff)
  have s2: "sessions st2 = sessions st" by (simp add: st2_def detachFromRoom_frame)
  note d = membersKnown_detach [OF mk inv m0]
  show ?thesis
    unfolding membersKnown_def e
  proof (intro allI impI)
    fix code k r
    assume a: "memberAt (attachToRoom uc st2 r0 raw) code k = Some r"
    show "map_of (sessions (attachToRoom uc st2 r0 raw)) k = Some r \<and>
        s_roomId (heap (attachToRoom uc st2 r0 raw) r) = Some code \<and> code \<noteq> []"
    proof (cases "code = toUpperCase uc (trim raw) \<and> k = k0")
      case True
      then have "r = r0" using a by (simp add: attachToRoom_memberAt id2)
      then show ?thesis using True m0 raw(3) by (simp add: attachToRoom_frame s2)
    next
      case False
      then have "memberAt ?st1 code k = Some r" using a by (auto simp: attachToRoom_memberAt id2 m2)
      then have f: "k \<noteq> k0 \<and> r \<noteq> r0 \<and> map_of (sessions st) k = Some r \<and>
           s_roomId (heap ?st1 r) = Some code \<and> code \<noteq> []"
        using d by blast
      then have "heap (attachToRoom uc st2 r0 raw) r = heap ?st1 r"
        by (simp add: attachToRoom_frame st2_def)
      then show ?thesis using f by (simp add: attachToRoom_frame(1) s2)
    qed
  qed
qed

lemma membersKnown_onOpen:
  assumes mk: "membersKnown st" and inv: "registryInvariant st"
    and fresh: "map_of (sessions st) clientId = None"
  shows "membersKnown (fst (onOpen st clientId ws))"
  unfolding membersKnown_def
proof (intro allI impI)
  fix code k r
  let ?st = "fst (onOpen st clientId ws)"
  assume "memberAt ?st code k = Some r"
  then have "memberAt st code k = Some r" by (simp add: memberAt_def onOpen_def Let_def)
  then have f: "map_of (sessions st) k = Some r" "s_roomId (heap st r) = Some code" "code \<noteq> []"
    using mk by (auto simp: membersKnown_def)
  then have "k \<noteq> clientId" using fresh by auto
  moreover have "r \<noteq> nextRef st" using inv f(1) by (auto simp: registryInvariant_def registered_def)
  ultimately show "map_of (sessions ?st) k = Some r \<and> s_roomId (heap ?st r) = Some code \<and> code \<noteq> []"
    using f by (simp add: onOpen_def Let_def update_conv')
qed

lemma membersKnown_step:
  assumes mk: "membersKnown st" and inv: "registryInvariant st" and pe: "plainEvent uc st e"
  shows "membersKnown (fst (step uc st e))"
proof (cases e)
  case (Open clientId ws)
  then show ?thesis using membersKnown_onOpen [OF mk inv] pe by (simp add: plainEvent_def)
next
  case (Message clientId data freshId now)
  show ?thesis
  proof (cases "map_of (sessions st) clientId")
    case None
    then show ?thesis using mk Message by (simp add: onMessage_def)
  next
    case (Some r0)
    show ?thesis
    proof (cases "\<exists>payload raw. data = Some payload \<and> field payload (str ''type'') = JStr (str ''join'') \<and>
                     field payload (str ''roomId'') = JStr raw \<and> raw \<noteq> []")
      case True
      then obtain payload raw where p: "data = Some payload" "field payload (str ''type'') = JStr (str ''join'')"
        "field payload (str ''roomId'') = JStr raw" "raw \<noteq> []" by blast
      have n: "toUpperCase uc (trim raw) \<noteq> []" using pe Message p by (simp add: plainEvent_def)
      note j = membersKnown_join [OF mk inv Some p(3,4) n]
      show ?thesis using Message Some p j mk by (simp add: onMessage_def)
    next
      case False
      have "fst (onMessage uc st clientId data freshId now) = st"
      proof (cases data)
        case None
        then show ?thesis using Some by (simp add: onMessage_def)
      next
        case (Some payload)
        have "field payload (str ''type'') = JStr (str ''join'') \<Longrightarrow> handleJoinMessage uc st r0 payload = (st, [])"
          using False Some by (intro handleJoinMessage_idle) auto
        then show ?thesis
          using Some \<open>map_of (sessions st) clientId = Some r0\<close>
          by (auto simp: onMessage_def handleSignalMessage_state handleChatMessage_state)
      qed
      then show ?thesis using mk Message by simp
    qed
  qed
next
  case (Close clientId)
  then show ?thesis using membersKnown_onClose [OF mk inv] by simp
next
  case (Error clientId)
  then show ?thesis using membersKnown_onClose [OF mk inv] by (simp add: onError_onClose)
next
  case (Transport ws state)
  then show ?thesis using mk by (simp add: membersKnown_def memberAt_def)
qed

lemma membersKnown_regular: "regular uc st \<Longrightarrow> membersKnown st"
proof (induction rule: regular.induct)
  case regular_startUp
  show ?case by (simp add: membersKnown_def memberAt_def startUp_def)
next
  case (regular_step st e)
  have "registryInvariant st"
    using regular_step.hyps(1) by (intro registryInvariant_reachable regular_reachable)
  with regular_step.IH show ?case using regular_step.hyps(2) by (rule membersKnown_step)
qed

lemma memberAt_entry:
  assumes "roomsDistinct st" and "(code, room) \<in> set (activeRooms st)" and "(k, r) \<in> set room"
  shows "memberAt st code k = Some r"
proof -
  have "map_of (activeRooms st) code = Some room" using assms(1,2) by (simp add: roomsDistinct_def)
  moreover have "distinct (map fst room)" using assms(1,2) by (auto simp: roomsDistinct_def)
  then have "map_of room k = Some r" using assms(3) by simp
  ultimately show ?thesis by (simp add: memberAt_def)
qed

lemma distinct_all_equal:
  assumes "distinct xs" and "\<forall>x \<in> set xs. \<forall>y \<in> set xs. x = y"
  shows "length xs \<le> 1"
proof (cases xs)
  case Nil
  then show ?thesis by simp
next
  case (Cons a ys)
  have "ys = []"
  proof (cases ys)
    case Nil
    then show ?thesis .
  next
    case (Cons b zs)
    then have "a \<in> set xs" and "b \<in> set xs" using \<open>xs = a # ys\<close> by simp_all
    then have "a = b" using assms(2) by blast
    moreover have "a \<noteq> b" using assms(1) \<open>xs = a # ys\<close> Cons by auto
    ultimately show ?thesis by simp
  qed
  then show ?thesis using Cons by simp
qed

text \<open>
  In the runs without a blank room code (and with connection ids that are not reused
  while registered) all three parts of the invariant hold.
\<close>

theorem regular_membership:
  assumes "regular uc st"
  shows "roomIdNamesRoom st \<and> membersRegistered st \<and> inOneRoomAtMost st"
proof -
  note mk = membersKnown_regular [OF assms]
  note rd = roomsDistinct_reachable [OF regular_reachable [OF assms]]
  have a: "roomIdNamesRoom st" using assms by (intro reachable_roomIdNamesRoom regular_reachable)
  have b: "membersRegistered st"
    unfolding membersRegistered_def list_all_iff
  proof (intro ballI, clarify)
    fix code room k r
    assume "(code, room) \<in> set (activeRooms st)" and "(k, r) \<in> set room"
    then have "memberAt st code k = Some r" using rd by (intro memberAt_entry)
    then show "map_of (sessions st) k = Some r" using mk by (simp add: membersKnown_def)
  qed
  have c: "inOneRoomAtMost st"
    unfolding inOneRoomAtMost_def list_all_iff
  proof (intro ballI, clarify)
    fix code room k r
    assume "(code, room) \<in> set (activeRooms st)" and "(k, r) \<in> set room"
    have "\<forall>c \<in> set (roomsOf st r). s_roomId (heap st r) = Some c"
    proof
      fix c assume "c \<in> set (roomsOf st r)"
      then obtain room' k' where "(c, room') \<in> set (activeRooms st)" "(k', r) \<in> set room'"
        by (auto simp: roomsOf_def)
      then have "memberAt st c k' = Some r" using rd by (intro memberAt_entry)
      then show "s_roomId (heap st r) = Some c" using mk by (simp add: membersKnown_def)
    qed
    then have one: "\<forall>c \<in> set (roomsOf st r). \<forall>c' \<in> set (roomsOf st r). c = c'"
      by (metis option.inject)
    have "distinct (roomsOf st r)"
      using rd by (simp add: roomsOf_def roomsDistinct_def distinct_map_filter)
    then show "length (roomsOf st r) \<le> 1"
      using one by (rule distinct_all_equal)
  qed
  show ?thesis using a b c by blast
qed


text \<open>
  For a registered session in a room with a non-empty code \<open>A\<close>, a join to a code with
  another normal form does what C5 says.
\<close>

lemma handleJoinMessage_moves:
  assumes reg: "registered st k r" and a: "s_roomId (heap st r) = Some A" and ne: "A \<noteq> []"
    and raw: "field message (str ''roomId'') = JStr raw" "raw \<noteq> []" and ab: "A \<noteq> toUpperCase uc (trim raw)"
  shows "s_roomId (heap (fst (handleJoinMessage uc st r message)) r) = Some (toUpperCase uc (trim raw))"
    and "memberAt (fst (handleJoinMessage uc st r message)) (toUpperCase uc (trim raw)) k = Some r"
    and "memberAt (fst (handleJoinMessage uc st r message)) A k = None"
    and "(\<forall>k'. k' \<noteq> k \<longrightarrow> memberAt st A k' = None) \<Longrightarrow>
           map_of (activeRooms (fst (handleJoinMessage uc st r message))) A = None"
proof -
  let ?st1 = "fst (detachFromRoom st r)"
  define st2 where "st2 = ?st1\<lparr>heap := (heap ?st1)(r := (heap ?st1 r)
             \<lparr>s_displayName := cleanDisplayName (field message (str ''displayName'')),
              s_role := requestedRole (field message (str ''role''))\<rparr>)\<rparr>"
  have e: "fst (handleJoinMessage uc st r message) = attachToRoom uc st2 r raw"
    unfolding handleJoinMessage_state [OF raw] st2_def by simp
  have id0: "s_id (heap st r) = k" using reg by (simp add: registered_def)
  have id2: "s_id (heap st2 r) = k" by (simp add: st2_def detachFromRoom_heap id0)
  have m2: "memberAt st2 = memberAt ?st1" by (simp add: st2_def memberAt_def fun_eq_iff)
  have a2: "activeRooms st2 = activeRooms ?st1" by (simp add: st2_def)
  show "s_roomId (heap (fst (handleJoinMessage uc st r message)) r) = Some (toUpperCase uc (trim raw))"
    unfolding e by (simp add: attachToRoom_frame)
  show "memberAt (fst (handleJoinMessage uc st r message)) (toUpperCase uc (trim raw)) k = Some r"
    unfolding e by (simp add: attachToRoom_memberAt id2)
  show "memberAt (fst (handleJoinMessage uc st r message)) A k = None"
    unfolding e using ab a ne by (simp add: attachToRoom_memberAt m2 detachFromRoom_memberAt id0)
  assume alone: "\<forall>k'. k' \<noteq> k \<longrightarrow> memberAt st A k' = None"
  have "map_of (activeRooms ?st1) A = None"
  proof (cases "map_of (activeRooms st) A")
    case None
    then show ?thesis using a ne by (simp add: detachFromRoom_def)
  next
    case (Some room)
    have "AList.delete k room = []"
    proof (rule ccontr)
      assume "AList.delete k room \<noteq> []"
      then obtain k' v where kv: "(k', v) \<in> set (AList.delete k room)"
        by (cases "AList.delete k room") auto
      then have "k' \<noteq> k" and "(k', v) \<in> set room" by (auto dest: set_delete_subset)
      then have "map_of room k' \<noteq> None" by (metis map_of_eq_None_iff fst_conv image_eqI)
      then show False using alone \<open>k' \<noteq> k\<close> Some by (simp add: memberAt_def)
    qed
    then show ?thesis using a ne Some by (simp add: detachFromRoom_def Let_def id0 delete_conv')
  qed
  then show "map_of (activeRooms (fst (handleJoinMessage uc st r message))) A = None"
    unfolding e using ab by (simp add: attachToRoom_def Let_def a2 update_conv')
qed

text \<open>
  C5 on that input. Sessions \<^verbatim>\<open>x\<close> and \<^verbatim>\<open>y\<close> are in the room of the code \<^verbatim>\<open>" "\<close>; \<^verbatim>\<open>x\<close> joins
  \<^verbatim>\<open>"b2"\<close>. Its \<^verbatim>\<open>roomId\<close> is \<^verbatim>\<open>B2\<close> and room \<^verbatim>\<open>B2\<close> holds it, and the membership of the
  first room still holds it too.
\<close>

theorem join_from_blank_room_keeps_old_membership:
  "s_roomId (heap (fst (run uc (blankRoom uc) [Message (str ''x'') (joinFrame (str ''b2'')) (str ''f3'') 12])) 0) = Some (str ''B2'') \<and>
   map_of (activeRooms (fst (run uc (blankRoom uc) [Message (str ''x'') (joinFrame (str ''b2'')) (str ''f3'') 12]))) (str ''B2'') =
     Some [(str ''x'', 0)] \<and>
   map_of (activeRooms (fst (run uc (blankRoom uc) [Message (str ''x'') (joinFrame (str ''b2'')) (str ''f3'') 12])))
       (toUpperCase uc (trim (str '' ''))) =
     Some [(str ''x'', 0), (str ''y'', 1)]"
  by code_simp

text \<open>
  For a session whose \<^verbatim>\<open>roomId\<close> is a non-empty code of a room of the directory,
  \<^verbatim>\<open>detachFromRoom\<close> calls \<^verbatim>\<open>sendJson\<close> with the \<^verbatim>\<open>user-left\<close> event once for each entry
  that remains in the room after the removal, and none of them has the session's id.
\<close>

lemma delete_entry_key: "(k, v) \<in> set (AList.delete a xs) \<Longrightarrow> k \<noteq> a"
  using delete_notin_dom [of a xs] by force

lemma broadcastToRoom_members:
  assumes "map_of (activeRooms st) roomId = Some room"
  shows "broadcastToRoom st roomId payload exclude =
           concat (map (\<lambda>(clientId, session).
                     if truthyString exclude \<and> Some clientId = exclude then []
                     else sendJson st (s_socket (heap st session)) payload)
                   room)"
  using assms by (simp add: broadcastToRoom_def)

lemma detachFromRoom_notifies:
  assumes "s_roomId (heap st session) = Some roomId" and "roomId \<noteq> []"
    and "map_of (activeRooms st) roomId = Some room"
  shows "snd (detachFromRoom st session) =
           concat (map (\<lambda>(clientId, member).
                     sendJson st (s_socket (heap st member)) (UserLeftEvent (s_id (heap st session))))
                   (AList.delete (s_id (heap st session)) room))"
proof -
  define cid where "cid = s_id (heap st session)"
  define room' where "room' = AList.delete cid room"
  define st1 where "st1 = st\<lparr>activeRooms := (if length room' = 0 then AList.delete roomId (activeRooms st)
                              else AList.update roomId room' (activeRooms st))\<rparr>"
  have out: "snd (detachFromRoom st session) = broadcastToRoom st1 roomId (UserLeftEvent cid) (Some cid)"
    using assms by (simp add: detachFromRoom_def Let_def st1_def room'_def cid_def)
  have same: "sendJson st1 ws p = sendJson st ws p" "heap st1 = heap st" for ws p
    by (simp_all add: sendJson_def st1_def)
  show ?thesis
  proof (cases "room' = []")
    case True
    then have "map_of (activeRooms st1) roomId = None" by (simp add: st1_def delete_conv')
    then have "broadcastToRoom st1 roomId (UserLeftEvent cid) (Some cid) = []"
      by (simp add: broadcastToRoom_def)
    then show ?thesis unfolding out using True by (simp add: room'_def cid_def)
  next
    case False
    then have m: "map_of (activeRooms st1) roomId = Some room'" by (simp add: st1_def update_conv')
    have pt: "(case x of (clientId, member) \<Rightarrow>
             if truthyString (Some cid) \<and> Some clientId = Some cid then []
             else sendJson st1 (s_socket (heap st1 member)) (UserLeftEvent cid)) =
          (case x of (clientId, member) \<Rightarrow> sendJson st (s_socket (heap st member)) (UserLeftEvent cid))"
      if "x \<in> set room'" for x
    proof -
      obtain k v where x: "x = (k, v)" by (cases x)
      then have "k \<noteq> cid" using that delete_entry_key [of k v cid room] by (simp add: room'_def)
      then show ?thesis using x by (simp add: same)
    qed
    have "map (\<lambda>(clientId, member).
             if truthyString (Some cid) \<and> Some clientId = Some cid then []
             else sendJson st1 (s_socket (heap st1 member)) (UserLeftEvent cid)) room' =
          map (\<lambda>(clientId, member). sendJson st (s_socket (heap st member)) (UserLeftEvent cid)) room'"
      by (rule map_cong [OF refl]) (rule pt)
    then show ?thesis
      unfolding out broadcastToRoom_members [OF m] by (simp only: room'_def cid_def)
  qed
qed

text \<open>
  C6 on that input. Sessions \<^verbatim>\<open>x\<close> and \<^verbatim>\<open>y\<close> are in the room of the code \<^verbatim>\<open>" "\<close>. When the
  connection of \<^verbatim>\<open>x\<close> closes nothing is sent, and \<^verbatim>\<open>x\<close> stays in the membership next to
  \<^verbatim>\<open>y\<close>; when \<^verbatim>\<open>x\<close> joins another room instead, only its own room-state is sent. In both
  cases \<^verbatim>\<open>y\<close> gets no \<^verbatim>\<open>user-left\<close>.
\<close>

theorem close_in_blank_room_sends_no_user_left:
  "snd (step uc (blankRoom uc) (Close (str ''x''))) = [] \<and>
   sessions (fst (step uc (blankRoom uc) (Close (str ''x'')))) = [(str ''y'', 1)] \<and>
   activeRooms (fst (step uc (blankRoom uc) (Close (str ''x'')))) = [([], [(str ''x'', 0), (str ''y'', 1)])] \<and>
   snd (step uc (blankRoom uc) (Message (str ''x'') (joinFrame (str ''b2'')) (str ''f3'') 12)) =
     [(101, RoomStateEvent [])]"
  by code_simp

text \<open>
  For a sender whose \<^verbatim>\<open>roomId\<close> is a non-empty code of a room of the directory and a
  target id of a member of that room, the signal goes to the target's socket only,
  with the sender's id and the payload (null when there is none).
\<close>

lemma handleSignalMessage_relay:
  assumes "s_roomId (heap st session) = Some roomId" and "roomId \<noteq> []"
    and "map_of (activeRooms st) roomId = Some room"
    and "field message (str ''targetClientId'') = JStr target" and "map_of room target = Some member"
    and "target \<noteq> []"
  shows "handleSignalMessage st session message =
           (st, sendJson st (s_socket (heap st member))
                  (SignalRelayEvent (s_id (heap st session))
                     (if field message (str ''payload'') = JUndefined then JNull
                      else field message (str ''payload''))))"
  using assms by (simp add: handleSignalMessage_def split: json.splits)

text \<open>
  C7 on that input. Sessions \<^verbatim>\<open>x\<close> and \<^verbatim>\<open>y\<close> are in the room of the code \<^verbatim>\<open>" "\<close>, the
  socket of \<^verbatim>\<open>y\<close> is open, and \<^verbatim>\<open>x\<close> sends a signal to \<^verbatim>\<open>y\<close>: nothing is sent.
\<close>

theorem signal_in_blank_room_is_dropped:
  "s_roomId (heap (blankRoom uc) 0) = Some [] \<and>
   map_of (activeRooms (blankRoom uc)) [] = Some [(str ''x'', 0), (str ''y'', 1)] \<and>
   readyStateOf (blankRoom uc) (s_socket (heap (blankRoom uc) 1)) = OPEN \<and>
   snd (step uc (blankRoom uc) (Message (str ''x'') (signalFrame (JStr (str ''y'')) (JStr (str ''offer''))) (str ''f3'') 12)) = []"
  by code_simp

section \<open>The earlier revision: frames and chat\<close>

text \<open>
  The earlier \<^verbatim>\<open>onMessage\<close> ignores the same frames, and every frame that is not a chat
  message with a string text; a chat message goes to every session, with the same rule
  for the \<^verbatim>\<open>messageId\<close>.
\<close>

lemma pocOnMessage_ignores:
  "data = None \<or>
   (\<exists>payload. data = Some payload \<and>
      (\<not> truthy payload \<or> field payload (str ''type'') \<noteq> JStr (str ''chat'') \<or>
       \<not> isString (field payload (str ''text'')))) \<Longrightarrow>
   pocOnMessage st clientId data freshId now = (st, [])"
  by (auto simp: pocOnMessage_def split: option.splits json.splits)

lemma pocOnMessage_chat:
  assumes "field payload (str ''type'') = JStr (str ''chat'')" and "field payload (str ''text'') = JStr text"
  shows "\<exists>messageId.
     pocOnMessage st clientId (Some payload) freshId now =
       (st, concat (map (\<lambda>(k, client). pocSendJson st (q_socket client)
                          (ChatEvent clientId text messageId now)) (q_sessions st))) \<and>
     (\<forall>supplied. field payload (str ''messageId'') = JStr supplied \<and> supplied \<noteq> [] \<longrightarrow>
        messageId = supplied) \<and>
     ((\<forall>supplied. field payload (str ''messageId'') = JStr supplied \<longrightarrow> supplied = []) \<longrightarrow>
        messageId = freshId)"
proof -
  have "truthy payload" using assms(1) by (cases payload) auto
  then show ?thesis using assms
    by (auto simp: pocOnMessage_def broadcast_def Let_def split: json.splits)
qed

end
